theory Spec2Isabelle
  imports Complex_Main "HOL-Library.Log_Nat"
begin

section \<open>Shared expense ledger: data model\<close>

text \<open>
  The program is a single Streamlit script (\<^verbatim>\<open>app.py\<close>). Its ledger is a spreadsheet read
  into a pandas frame. Money is a Python float. The settlement loop is embedded twice: with
  exact rationals (\<open>row_step\<close>), for the properties that do not depend on rounding, and with
  every arithmetic result rounded (\<open>row_step_r\<close>, rounding to binary64 with \<open>binary64\<close>),
  for the sum of the balances, which does. Strings are lists of code points below 256.
\<close>

definition USERS :: "string list" where
  "USERS = [''Christen'', ''Bill'']"

definition EXCHANGE_RATE :: rat where
  "EXCHANGE_RATE = 2075 / 10000"

text \<open>
  A cell of a text column (\<^verbatim>\<open>Date\<close>, \<^verbatim>\<open>Item\<close>, \<^verbatim>\<open>Currency\<close>, \<^verbatim>\<open>Payer\<close>, \<^verbatim>\<open>Involved\<close>) holds a
  string or is empty (pandas reads an empty cell as NaN). A cell of the \<^verbatim>\<open>Amount\<close> column
  holds a number, a text, or is empty.
\<close>

datatype cell = Text string | Blank

datatype amount_cell = Number rat | AmountText string | BlankAmount

text \<open>
  A row of the frame as \<^verbatim>\<open>conn.read\<close> returns it and as \<^verbatim>\<open>conn.update\<close> writes it. A field is
  \<open>None\<close> when the frame has no column of that name, so that \<^verbatim>\<open>row['X']\<close> raises KeyError.
\<close>

record sheet_row =
  sheet_Date :: "cell option"
  sheet_Item :: "cell option"
  sheet_Amount :: "amount_cell option"
  sheet_Currency :: "cell option"
  sheet_Payer :: "cell option"
  sheet_Involved :: "cell option"

text \<open>
  A row of the frame that \<^verbatim>\<open>get_data\<close> returns: \<^verbatim>\<open>dropna(subset=['Payer', 'Amount'])\<close> has
  removed the rows whose payer or amount is empty (and needs both columns to exist), and
  the payer has been converted to a stripped string.
\<close>

datatype amount = Num rat | NonNum string

record row =
  Date :: "cell option"
  Item :: "cell option"
  Amount :: amount
  Currency :: "cell option"
  Payer :: string
  Involved :: "cell option"

section \<open>Python string helpers\<close>

text \<open>\<^verbatim>\<open>str.isspace\<close> on code points below 256.\<close>

definition is_space :: "char \<Rightarrow> bool" where
  "is_space c = (c \<in> set [CHR 0x09, CHR 0x0A, CHR 0x0B, CHR 0x0C, CHR 0x0D,
                           CHR 0x1C, CHR 0x1D, CHR 0x1E, CHR 0x1F, CHR 0x20,
                           CHR 0x85, CHR 0xA0])"

text \<open>\<^verbatim>\<open>s.strip()\<close>: leading and trailing whitespace removed.\<close>

definition strip :: "string \<Rightarrow> string" where
  "strip s = rev (dropWhile is_space (rev (dropWhile is_space s)))"

text \<open>
  \<^verbatim>\<open>s.split(sep)\<close> for a one-character separator: the pieces between the separators, the
  empty ones included; a string without separator is the only piece.
\<close>

fun split_on :: "char \<Rightarrow> string \<Rightarrow> string list" where
  "split_on sep [] = [[]]"
| "split_on sep (c # cs) =
     (if c = sep then [] # split_on sep cs
      else (case split_on sep cs of
              [] \<Rightarrow> [[c]]
            | w # ws \<Rightarrow> (c # w) # ws))"

text \<open>\<^verbatim>\<open>sep.join(xs)\<close>.\<close>

fun join :: "string \<Rightarrow> string list \<Rightarrow> string" where
  "join sep [] = []"
| "join sep [x] = x"
| "join sep (x # y # ys) = x @ sep @ join sep (y # ys)"

text \<open>\<^verbatim>\<open>str(v)\<close> of a text cell: the text itself, and \<^verbatim>\<open>'nan'\<close> for an empty cell.\<close>

fun str_cell :: "cell \<Rightarrow> string" where
  "str_cell (Text s) = s"
| "str_cell Blank = ''nan''"

text \<open>\<^verbatim>\<open>int(x)\<close> of a float: truncation towards zero.\<close>

definition py_int :: "rat \<Rightarrow> int" where
  "py_int x = (if 0 \<le> x then \<lfloor>x\<rfloor> else \<lceil>x\<rceil>)"

text \<open>
  \<^verbatim>\<open>float(v)\<close> of an amount. The builtin's parser of strings is a parameter
  \<open>float_str\<close>: \<open>None\<close> where \<^verbatim>\<open>float\<close> raises ValueError.
\<close>

fun float_amount :: "(string \<Rightarrow> rat option) \<Rightarrow> amount \<Rightarrow> rat option" where
  "float_amount float_str (Num x) = Some x"
| "float_amount float_str (NonNum s) = float_str s"

text \<open>\<^verbatim>\<open>x / n\<close> with \<open>n\<close> a length: ZeroDivisionError when \<open>n = 0\<close>.\<close>

definition py_div :: "rat \<Rightarrow> nat \<Rightarrow> rat option" where
  "py_div x n = (if n = 0 then None else Some (x / of_nat n))"

section \<open>Fetching the ledger (\<^verbatim>\<open>get_data\<close>)\<close>

datatype error = KeyError | Incomplete | ReadFailed | UpdateFailed

definition dropna_keeps :: "sheet_row \<Rightarrow> bool" where
  "dropna_keeps r = (sheet_Payer r \<noteq> Some Blank \<and> sheet_Amount r \<noteq> Some BlankAmount)"

fun clean_row :: "sheet_row \<Rightarrow> row option" where
  "clean_row r =
     (case sheet_Payer r of
        None \<Rightarrow> None
      | Some p \<Rightarrow>
         (case sheet_Amount r of
            None \<Rightarrow> None
          | Some BlankAmount \<Rightarrow> None
          | Some (Number x) \<Rightarrow>
              Some \<lparr>Date = sheet_Date r, Item = sheet_Item r, Amount = Num x,
                    Currency = sheet_Currency r, Payer = strip (str_cell p),
                    Involved = sheet_Involved r\<rparr>
          | Some (AmountText s) \<Rightarrow>
              Some \<lparr>Date = sheet_Date r, Item = sheet_Item r, Amount = NonNum s,
                    Currency = sheet_Currency r, Payer = strip (str_cell p),
                    Involved = sheet_Involved r\<rparr>))"

text \<open>
  \<^verbatim>\<open>get_data\<close> on the frame that \<^verbatim>\<open>conn.read\<close> returned: an empty frame is returned as it
  is; otherwise the rows with an empty payer or amount are dropped (KeyError when one of
  the two columns does not exist) and the payer is stripped.
\<close>

definition get_data :: "sheet_row list \<Rightarrow> error + row list" where
  "get_data df =
     (if df = [] then Inr []
      else if list_ex (\<lambda>r. sheet_Payer r = None \<or> sheet_Amount r = None) df
      then Inl KeyError
      else Inr (List.map_filter clean_row (filter dropna_keeps df)))"

section \<open>Settlement (tab 3)\<close>

record stats =
  paid :: rat
  fair_share :: rat

type_synonym user_stats = "string \<rightharpoonup> stats"

record acc =
  user_stats :: user_stats
  total_twd :: rat

definition init_acc :: acc where
  "init_acc = \<lparr>user_stats = map_of (map (\<lambda>u. (u, \<lparr>paid = 0, fair_share = 0\<rparr>)) USERS),
               total_twd = 0\<rparr>"

text \<open>\<^verbatim>\<open>if p_name in user_stats: user_stats[p_name]["paid"] += amt_twd\<close>\<close>

definition add_paid :: "user_stats \<Rightarrow> string \<Rightarrow> rat \<Rightarrow> user_stats" where
  "add_paid us p x = (case us p of None \<Rightarrow> us | Some s \<Rightarrow> us(p \<mapsto> s\<lparr>paid := paid s + x\<rparr>))"

text \<open>\<^verbatim>\<open>if person in user_stats: user_stats[person]["fair_share"] += share\<close>\<close>

definition add_share :: "user_stats \<Rightarrow> string \<Rightarrow> rat \<Rightarrow> user_stats" where
  "add_share us p x =
     (case us p of None \<Rightarrow> us | Some s \<Rightarrow> us(p \<mapsto> s\<lparr>fair_share := fair_share s + x\<rparr>))"

text \<open>\<^verbatim>\<open>[name.strip() for name in str(row['Involved']).split(",")]\<close>\<close>

definition inv_list :: "cell \<Rightarrow> string list" where
  "inv_list c = map strip (split_on CHR '','' (str_cell c))"

text \<open>
  The body of the \<^verbatim>\<open>try\<close> for one row. An exception leaves the body at the statement that
  raises it and the \<^verbatim>\<open>except\<close> continues with the next row; what the earlier statements
  have added stays added.
\<close>

definition row_step :: "(string \<Rightarrow> rat option) \<Rightarrow> acc \<Rightarrow> row \<Rightarrow> acc" where
  "row_step float_str a r =
     (case float_amount float_str (Amount r) of
        None \<Rightarrow> a
      | Some amt \<Rightarrow>
         (case Currency r of
            None \<Rightarrow> a
          | Some cur \<Rightarrow>
             (let amt_twd = (if cur = Text ''JPY'' then amt * EXCHANGE_RATE else amt);
                  a1 = a\<lparr>total_twd := total_twd a + amt_twd\<rparr>;
                  a2 = a1\<lparr>user_stats := add_paid (user_stats a1) (Payer r) amt_twd\<rparr>
              in (case Involved r of
                    None \<Rightarrow> a2
                  | Some ic \<Rightarrow>
                     (case py_div amt_twd (length (inv_list ic)) of
                        None \<Rightarrow> a2
                      | Some share \<Rightarrow>
                          a2\<lparr>user_stats :=
                               fold (\<lambda>person us. add_share us person share)
                                    (inv_list ic) (user_stats a2)\<rparr>)))))"

text \<open>
  \<^verbatim>\<open>for _, row in df.iterrows(): ...\<close>, from the fresh \<^verbatim>\<open>user_stats\<close> and total. Tab 3 runs it
  when the frame is not empty.
\<close>

definition settle :: "(string \<Rightarrow> rat option) \<Rightarrow> row list \<Rightarrow> acc" where
  "settle float_str df = fold (\<lambda>r a. row_step float_str a r) df init_acc"

text \<open>\<^verbatim>\<open>user_stats[u]["paid"] - user_stats[u]["fair_share"]\<close>, KeyError for an unknown key.\<close>

definition balance :: "user_stats \<Rightarrow> string \<Rightarrow> rat option" where
  "balance us u = (case us u of None \<Rightarrow> None | Some s \<Rightarrow> Some (paid s - fair_share s))"

text \<open>
  The settlement advice: nothing to pay, or who pays whom and the amount as it is
  displayed (\<^verbatim>\<open>int(abs(diff))\<close>).
\<close>

datatype advice = Balanced | Pays string string int

definition advise :: "rat \<Rightarrow> advice" where
  "advise diff =
     (if \<bar>diff\<bar> < 1 then Balanced
      else if diff > 0 then Pays (USERS ! 1) (USERS ! 0) (py_int \<bar>diff\<bar>)
      else Pays (USERS ! 0) (USERS ! 1) (py_int \<bar>diff\<bar>))"

definition diff_of :: "acc \<Rightarrow> rat option" where
  "diff_of a = balance (user_stats a) (USERS ! 0)"

definition settlement :: "acc \<Rightarrow> advice option" where
  "settlement a = map_option advise (diff_of a)"

section \<open>The loop in binary64 arithmetic\<close>

text \<open>
  A Python float is an IEEE 754 binary64 number, and every float operation returns the exact
  result rounded to the nearest such number, ties to the even significand. \<open>binary64 x\<close> is
  that rounding of the rational \<open>x\<close>: with \<open>e = exponent x\<close> the integer for which
  \<open>2^e \<le> |x| < 2^(e+1)\<close>, the result is the multiple of \<open>2^(e - 52)\<close> nearest to \<open>x\<close>. The
  exponent is not bounded: overflow to infinity and the subnormal numbers are not modelled.
\<close>

definition pow2 :: "int \<Rightarrow> rat" where
  "pow2 k = (if 0 \<le> k then 2 ^ nat k else 1 / 2 ^ nat (- k))"

definition exponent :: "rat \<Rightarrow> int" where
  "exponent x = (if 1 \<le> \<bar>x\<bar> then bitlen \<lfloor>\<bar>x\<bar>\<rfloor> - 1 else - bitlen (\<lceil>1 / \<bar>x\<bar>\<rceil> - 1))"

definition round_half_even :: "rat \<Rightarrow> int" where
  "round_half_even m =
     (let f = \<lfloor>m\<rfloor>; d = m - of_int f
      in if d < 1 / 2 then f else if 1 / 2 < d then f + 1 else if even f then f else f + 1)"

definition binary64 :: "rat \<Rightarrow> rat" where
  "binary64 x =
     (if x = 0 then 0
      else (let s = pow2 (exponent x - 52) in of_int (round_half_even (x / s)) * s))"

text \<open>
  The loop with each arithmetic result rounded by \<open>rnd\<close>, statement by statement as
  \<open>row_step\<close>: \<^verbatim>\<open>float(row['Amount'])\<close>, the product with the rate (itself the float nearest
  to 0.2075), the three \<^verbatim>\<open>+=\<close> and the division. With the identity for \<open>rnd\<close> it is
  \<open>row_step\<close>.
\<close>

definition add_paid_r :: "(rat \<Rightarrow> rat) \<Rightarrow> user_stats \<Rightarrow> string \<Rightarrow> rat \<Rightarrow> user_stats" where
  "add_paid_r rnd us p x =
     (case us p of None \<Rightarrow> us | Some s \<Rightarrow> us(p \<mapsto> s\<lparr>paid := rnd (paid s + x)\<rparr>))"

definition add_share_r :: "(rat \<Rightarrow> rat) \<Rightarrow> user_stats \<Rightarrow> string \<Rightarrow> rat \<Rightarrow> user_stats" where
  "add_share_r rnd us p x =
     (case us p of None \<Rightarrow> us | Some s \<Rightarrow> us(p \<mapsto> s\<lparr>fair_share := rnd (fair_share s + x)\<rparr>))"

definition row_step_r ::
  "(rat \<Rightarrow> rat) \<Rightarrow> (string \<Rightarrow> rat option) \<Rightarrow> acc \<Rightarrow> row \<Rightarrow> acc" where
  "row_step_r rnd float_str a r =
     (case float_amount float_str (Amount r) of
        None \<Rightarrow> a
      | Some v \<Rightarrow>
         (case Currency r of
            None \<Rightarrow> a
          | Some cur \<Rightarrow>
             (let amt = rnd v;
                  amt_twd = (if cur = Text ''JPY'' then rnd (amt * rnd EXCHANGE_RATE) else amt);
                  a1 = a\<lparr>total_twd := rnd (total_twd a + amt_twd)\<rparr>;
                  a2 = a1\<lparr>user_stats := add_paid_r rnd (user_stats a1) (Payer r) amt_twd\<rparr>
              in (case Involved r of
                    None \<Rightarrow> a2
                  | Some ic \<Rightarrow>
                     (case py_div amt_twd (length (inv_list ic)) of
                        None \<Rightarrow> a2
                      | Some share \<Rightarrow>
                          a2\<lparr>user_stats :=
                               fold (\<lambda>person us. add_share_r rnd us person (rnd share))
                                    (inv_list ic) (user_stats a2)\<rparr>)))))"

definition settle_r :: "(rat \<Rightarrow> rat) \<Rightarrow> (string \<Rightarrow> rat option) \<Rightarrow> row list \<Rightarrow> acc" where
  "settle_r rnd float_str df = fold (\<lambda>r a. row_step_r rnd float_str a r) df init_acc"

text \<open>\<^verbatim>\<open>user_stats[u]["paid"] - user_stats[u]["fair_share"]\<close>, rounded.\<close>

definition balance_r :: "(rat \<Rightarrow> rat) \<Rightarrow> user_stats \<Rightarrow> string \<Rightarrow> rat option" where
  "balance_r rnd us u =
     (case us u of None \<Rightarrow> None | Some s \<Rightarrow> Some (rnd (paid s - fair_share s)))"

section \<open>Application state and handlers\<close>

text \<open>
  The remote sheet, the entry that \<^verbatim>\<open>@st.cache_data(ttl=30)\<close> keeps for \<^verbatim>\<open>get_data\<close> (fetch
  time and value; the decorator and the connection belong to the framework, and their
  behaviour here is the contract of sections 4.1 and 4.2 of the specification), and the
  three fields of \<^verbatim>\<open>st.session_state\<close>. Times are seconds; the formatted clock strings are
  kept as the time they were taken from.
\<close>

record app_state =
  remote :: "sheet_row list"
  cache :: "(rat \<times> row list) option"
  last_sync :: rat
  last_sync_time :: rat
  last_sync_display :: "rat option"

text \<open>What one run of a handler gets from outside: the clock and whether the store answers.\<close>

record env =
  now :: rat
  read_ok :: bool
  update_ok :: bool

text \<open>Session state as the script sets it up on the first run (lines 45 to 53).\<close>

definition init_state :: "sheet_row list \<Rightarrow> rat \<Rightarrow> app_state" where
  "init_state sheet t =
     \<lparr>remote = sheet, cache = None, last_sync = t, last_sync_time = 0,
      last_sync_display = None\<rparr>"

text \<open>\<^verbatim>\<open>conn.read(spreadsheet=SHEET_URL, ttl=0)\<close>: the current sheet, never a cached copy.\<close>

definition conn_read_fresh :: "env \<Rightarrow> app_state \<Rightarrow> error + sheet_row list" where
  "conn_read_fresh e s = (if read_ok e then Inr (remote s) else Inl ReadFailed)"

text \<open>
  The cached \<^verbatim>\<open>get_data()\<close>: the snapshot while it is younger than 30 seconds, else a fetch
  whose value is stored with its time. A fetch that raises stores nothing. A fetch is taken
  to read the sheet: a cache that the connection may keep of its own for \<^verbatim>\<open>conn.read\<close> is
  not part of the state.
\<close>

definition get_data_cached :: "env \<Rightarrow> app_state \<Rightarrow> (error + row list) \<times> app_state" where
  "get_data_cached e s =
     (let fetch = (if read_ok e
                   then (case get_data (remote s) of
                           Inl err \<Rightarrow> (Inl err, s)
                         | Inr v \<Rightarrow> (Inr v, s\<lparr>cache := Some (now e, v)\<rparr>))
                   else (Inl ReadFailed, s))
      in (case cache s of
            None \<Rightarrow> fetch
          | Some (t, v) \<Rightarrow> if now e - t < 30 then (Inr v, s) else fetch))"

subsection \<open>The refresh button (lines 56 to 68)\<close>

datatype refresh_report = Wait int | Synced

definition refresh :: "rat \<Rightarrow> app_state \<Rightarrow> refresh_report \<times> app_state" where
  "refresh current_time s =
     (let time_since_last = current_time - last_sync_time s
      in if time_since_last < 30
         then (Wait (py_int (30 - time_since_last)), s)
         else (Synced, s\<lparr>cache := None, last_sync_time := current_time,
                          last_sync_display := Some current_time\<rparr>))"

text \<open>The button pressed at each time of a list, in order.\<close>

definition press_all :: "rat list \<Rightarrow> app_state \<Rightarrow> app_state" where
  "press_all ts s = fold (\<lambda>t s'. snd (refresh t s')) ts s"

subsection \<open>The add form (lines 75 to 113)\<close>

record form =
  date :: string
  item :: string
  amount :: rat
  currency :: string
  payer :: string
  involved :: "string list"

definition new_row :: "form \<Rightarrow> sheet_row" where
  "new_row f =
     \<lparr>sheet_Date = Some (Text (date f)), sheet_Item = Some (Text (item f)),
      sheet_Amount = Some (Number (amount f)), sheet_Currency = Some (Text (currency f)),
      sheet_Payer = Some (Text (payer f)),
      sheet_Involved = Some (Text (join '', '' (involved f)))\<rparr>"

text \<open>
  \<^verbatim>\<open>pd.concat([fresh_data, new_row], ignore_index=True)\<close>: the rows of the first frame, then
  the new row. The result has the columns of both frames, so a row of the first frame gets
  an empty cell in each of the six columns that its frame did not have.
\<close>

definition fill_cell :: "cell option \<Rightarrow> cell option" where
  "fill_cell c = (case c of None \<Rightarrow> Some Blank | Some v \<Rightarrow> Some v)"

definition fill_amount :: "amount_cell option \<Rightarrow> amount_cell option" where
  "fill_amount c = (case c of None \<Rightarrow> Some BlankAmount | Some v \<Rightarrow> Some v)"

definition fill_row :: "sheet_row \<Rightarrow> sheet_row" where
  "fill_row r =
     \<lparr>sheet_Date = fill_cell (sheet_Date r), sheet_Item = fill_cell (sheet_Item r),
      sheet_Amount = fill_amount (sheet_Amount r),
      sheet_Currency = fill_cell (sheet_Currency r),
      sheet_Payer = fill_cell (sheet_Payer r),
      sheet_Involved = fill_cell (sheet_Involved r)\<rparr>"

definition pd_concat :: "sheet_row list \<Rightarrow> sheet_row \<Rightarrow> sheet_row list" where
  "pd_concat fresh_data r = map fill_row fresh_data @ [r]"

text \<open>A row of a frame that has all six columns.\<close>

definition has_columns :: "sheet_row \<Rightarrow> bool" where
  "has_columns r =
     (sheet_Date r \<noteq> None \<and> sheet_Item r \<noteq> None \<and> sheet_Amount r \<noteq> None \<and>
      sheet_Currency r \<noteq> None \<and> sheet_Payer r \<noteq> None \<and> sheet_Involved r \<noteq> None)"

text \<open>
  The submit branch. The one error message of the validation names the three fields
  together (item, amount, sharers) whatever is missing: it is the value \<open>Incomplete\<close>. A
  failing read or update raises out of the handler, before the statements that follow it.
  On success the message carries the item.
\<close>

definition submit :: "env \<Rightarrow> form \<Rightarrow> app_state \<Rightarrow> (error + string) \<times> app_state" where
  "submit e f s =
     (if item f = [] \<or> amount f \<le> 0 \<or> involved f = [] then (Inl Incomplete, s)
      else (case conn_read_fresh e s of
              Inl err \<Rightarrow> (Inl err, s)
            | Inr fresh_data \<Rightarrow>
               (let updated_df = pd_concat fresh_data (new_row f)
                in if update_ok e
                   then (Inr (item f),
                         s\<lparr>remote := updated_df, cache := None, last_sync := now e\<rparr>)
                   else (Inl UpdateFailed, s))))"

section \<open>Readings of the specification and example data\<close>

text \<open>
  The validator as section 4.3 words it: the fields that a form violates (empty item,
  amount at most 0, empty involved set).
\<close>

datatype field = ItemField | AmountField | InvolvedField

definition spec_violated_fields :: "form \<Rightarrow> field list" where
  "spec_violated_fields f =
     (if item f = [] then [ItemField] else []) @
     (if amount f \<le> 0 then [AmountField] else []) @
     (if involved f = [] then [InvolvedField] else [])"

text \<open>
  A row that cannot be parsed as section 4.4 (7) words it: a non-numeric amount, or no
  Involved value.
\<close>

definition spec_unparseable :: "(string \<Rightarrow> rat option) \<Rightarrow> row \<Rightarrow> bool" where
  "spec_unparseable float_str r =
     (float_amount float_str (Amount r) = None \<or> Involved r = None \<or> Involved r = Some Blank)"

text \<open>
  A parser for the concrete examples: it reads a string of decimal digits, as \<^verbatim>\<open>float\<close>
  does, and rejects every other string.
\<close>

definition float_digits :: "string \<Rightarrow> rat option" where
  "float_digits s =
     (if s \<noteq> [] \<and> list_all (\<lambda>c. (48::nat) \<le> of_char c \<and> of_char c \<le> (57::nat)) s
      then Some (of_nat (fold (\<lambda>c n. 10 * n + (of_char c - 48)) s (0::nat)))
      else None)"

text \<open>The sum of the balances of the participants, as section 8 words it.\<close>

definition balance_sum :: "user_stats \<Rightarrow> rat option" where
  "balance_sum us = map_option sum_list (those (map (balance us) USERS))"

text \<open>
  The rows on which the \<^verbatim>\<open>try\<close> body gets past its first two statements, the conversion of
  the amount and the test of the currency: the conversion does not raise and the frame has
  a Currency column. Every other row raises before anything is accumulated.
\<close>

definition parses :: "(string \<Rightarrow> rat option) \<Rightarrow> row \<Rightarrow> bool" where
  "parses float_str r = (float_amount float_str (Amount r) \<noteq> None \<and> Currency r \<noteq> None)"

text \<open>A row whose payer and whose involved names are all keys of \<^verbatim>\<open>user_stats\<close>.\<close>

definition known_names :: "row \<Rightarrow> bool" where
  "known_names r =
     (Payer r \<in> set USERS \<and>
      (case Involved r of
         None \<Rightarrow> False
       | Some c \<Rightarrow> list_all (\<lambda>n. n \<in> set USERS) (inv_list c)))"

text \<open>What a key has paid and owes, 0 for a key that is not there; and the sums over the users.\<close>

definition paid_of :: "user_stats \<Rightarrow> string \<Rightarrow> rat" where
  "paid_of us u = (case us u of None \<Rightarrow> 0 | Some s \<Rightarrow> paid s)"

definition share_of :: "user_stats \<Rightarrow> string \<Rightarrow> rat" where
  "share_of us u = (case us u of None \<Rightarrow> 0 | Some s \<Rightarrow> fair_share s)"

definition paid_total :: "user_stats \<Rightarrow> rat" where
  "paid_total us = sum_list (map (paid_of us) USERS)"

definition share_total :: "user_stats \<Rightarrow> rat" where
  "share_total us = sum_list (map (share_of us) USERS)"

text \<open>The sum of the rounded balances of the participants.\<close>

definition balance_sum_r :: "(rat \<Rightarrow> rat) \<Rightarrow> user_stats \<Rightarrow> rat option" where
  "balance_sum_r rnd us = map_option sum_list (those (map (balance_r rnd us) USERS))"

text \<open>
  The amount in TWD that the loop computes for a row (\<^verbatim>\<open>amt_twd\<close>), \<open>None\<close> for a row that
  does not parse.
\<close>

definition local_amount :: "(rat \<Rightarrow> rat) \<Rightarrow> (string \<Rightarrow> rat option) \<Rightarrow> row \<Rightarrow> rat option" where
  "local_amount rnd float_str r =
     (case float_amount float_str (Amount r) of
        None \<Rightarrow> None
      | Some v \<Rightarrow>
         (case Currency r of
            None \<Rightarrow> None
          | Some cur \<Rightarrow>
              Some (if cur = Text ''JPY'' then rnd (rnd v * rnd EXCHANGE_RATE) else rnd v)))"

text \<open>
  The size of a ledger: the rows that parse, the names listed in their Involved cells, and
  the sum of the absolute amounts in TWD.
\<close>

definition processed_rows :: "(string \<Rightarrow> rat option) \<Rightarrow> row list \<Rightarrow> nat" where
  "processed_rows float_str df = length (filter (parses float_str) df)"

definition listed_names :: "(string \<Rightarrow> rat option) \<Rightarrow> row list \<Rightarrow> nat" where
  "listed_names float_str df =
     sum_list (map (\<lambda>r. case Involved r of None \<Rightarrow> 0 | Some c \<Rightarrow> length (inv_list c))
                   (filter (parses float_str) df))"

definition abs_total :: "(rat \<Rightarrow> rat) \<Rightarrow> (string \<Rightarrow> rat option) \<Rightarrow> row list \<Rightarrow> rat" where
  "abs_total rnd float_str df =
     sum_list (map (\<lambda>r. case local_amount rnd float_str r of None \<Rightarrow> 0 | Some a \<Rightarrow> \<bar>a\<bar>) df)"

text \<open>
  A row whose amount, when it parses, is 0 or of a magnitude between \<open>2^-900\<close> and
  \<open>2^900\<close>. On a ledger of up to \<open>2^52\<close> such rows no result of the loop overflows and no
  product or quotient is subnormal, so that \<open>binary64\<close> is the rounding of the machine.
\<close>

definition in_float_range :: "(string \<Rightarrow> rat option) \<Rightarrow> row \<Rightarrow> bool" where
  "in_float_range float_str r =
     (case float_amount float_str (Amount r) of
        None \<Rightarrow> True
      | Some v \<Rightarrow> v = 0 \<or> (1 / 2 ^ 900 \<le> \<bar>v\<bar> \<and> \<bar>v\<bar> \<le> 2 ^ 900))"

text \<open>
  The bound on the sum of the balances that rounding can cause: the unit roundoff
  \<open>2^-53\<close> times the absolute total times \<open>3 n + 4 l + 16\<close>, for \<open>n\<close> rows and \<open>l\<close> names.
\<close>

definition drift_bound :: "(rat \<Rightarrow> rat) \<Rightarrow> (string \<Rightarrow> rat option) \<Rightarrow> row list \<Rightarrow> rat" where
  "drift_bound rnd float_str df =
     (1 / 2 ^ 53) * abs_total rnd float_str df *
       (3 * of_nat (processed_rows float_str df) + 4 * of_nat (listed_names float_str df) + 16)"

text \<open>
  The invariant of the rounded loop after \<open>n\<close> rows with \<open>l\<close> names and absolute total \<open>A\<close>,
  for a rounding of relative error \<open>u\<close>: the size of each bucket and the difference between
  what was paid and what is owed.
\<close>

definition drift_inv :: "rat \<Rightarrow> user_stats \<Rightarrow> nat \<Rightarrow> nat \<Rightarrow> rat \<Rightarrow> bool" where
  "drift_inv u us n l A =
     (dom us = set USERS \<and> 0 \<le> A \<and>
      (\<forall>U\<in>set USERS. \<bar>paid_of us U\<bar> \<le> (1 + 2 * of_nat n * u) * A) \<and>
      (\<forall>U\<in>set USERS. \<bar>share_of us U\<bar> \<le> (1 + 2 * of_nat l * u) * ((1 + u) * A)) \<and>
      \<bar>paid_total us - share_total us\<bar> \<le> u * A * (3 * of_nat n + 4 * of_nat l))"

subsection \<open>Example ledgers\<close>

text \<open>The scenario of section 8: 1000 JPY paid by the first user, 500 TWD by the second.\<close>

definition scenario_entry1 :: row where
  "scenario_entry1 =
     \<lparr>Date = Some (Text ''2026-02-01''), Item = Some (Text ''ramen''), Amount = Num 1000,
      Currency = Some (Text ''JPY''), Payer = ''Christen'',
      Involved = Some (Text ''Christen, Bill'')\<rparr>"

definition scenario_entry2 :: row where
  "scenario_entry2 =
     \<lparr>Date = Some (Text ''2026-02-02''), Item = Some (Text ''taxi''), Amount = Num 500,
      Currency = Some (Text ''TWD''), Payer = ''Bill'',
      Involved = Some (Text ''Christen, Bill'')\<rparr>"

text \<open>100 TWD paid by somebody who is not a user, split between the two users.\<close>

definition stranger_row :: row where
  "stranger_row =
     \<lparr>Date = Some (Text ''2026-02-03''), Item = Some (Text ''gift''), Amount = Num 100,
      Currency = Some (Text ''TWD''), Payer = ''Zed'',
      Involved = Some (Text ''Christen, Bill'')\<rparr>"

text \<open>A row whose amount is not a number.\<close>

definition garbled_row :: row where
  "garbled_row =
     \<lparr>Date = Some (Text ''2026-02-04''), Item = Some (Text ''tea''), Amount = NonNum ''abc'',
      Currency = Some (Text ''TWD''), Payer = ''Zed'', Involved = Some (Text ''Zed'')\<rparr>"

text \<open>100 TWD paid by the first user, the Involved cell empty.\<close>

definition blank_involved_row :: row where
  "blank_involved_row =
     \<lparr>Date = Some (Text ''2026-02-05''), Item = Some (Text ''bus''), Amount = Num 100,
      Currency = Some (Text ''TWD''), Payer = ''Christen'', Involved = Some Blank\<rparr>"

text \<open>The same row in a frame that has no Involved column.\<close>

definition no_involved_row :: row where
  "no_involved_row =
     \<lparr>Date = Some (Text ''2026-02-05''), Item = Some (Text ''bus''), Amount = Num 100,
      Currency = Some (Text ''TWD''), Payer = ''Christen'', Involved = None\<rparr>"

text \<open>2 TWD split between the two users, paid by the first and by the second user.\<close>

definition two_twd_by_first :: row where
  "two_twd_by_first =
     \<lparr>Date = Some (Text ''2026-02-06''), Item = Some (Text ''gum''), Amount = Num 2,
      Currency = Some (Text ''TWD''), Payer = ''Christen'',
      Involved = Some (Text ''Christen, Bill'')\<rparr>"

definition two_twd_by_second :: row where
  "two_twd_by_second =
     \<lparr>Date = Some (Text ''2026-02-06''), Item = Some (Text ''gum''), Amount = Num 2,
      Currency = Some (Text ''TWD''), Payer = ''Bill'',
      Involved = Some (Text ''Christen, Bill'')\<rparr>"

text \<open>1 JPY and 3 JPY, the second split in three: the shares are not binary64 numbers.\<close>

definition one_yen_row :: row where
  "one_yen_row =
     \<lparr>Date = Some (Text ''2026-02-07''), Item = Some (Text ''coin''), Amount = Num 1,
      Currency = Some (Text ''JPY''), Payer = ''Christen'',
      Involved = Some (Text ''Christen, Bill'')\<rparr>"

definition three_yen_row :: row where
  "three_yen_row =
     \<lparr>Date = Some (Text ''2026-02-07''), Item = Some (Text ''coins''), Amount = Num 3,
      Currency = Some (Text ''JPY''), Payer = ''Bill'',
      Involved = Some (Text ''Christen, Bill, Bill'')\<rparr>"

text \<open>An amount of \<open>2^54\<close> TWD, where binary64 numbers are 4 apart, and 1 TWD after it.\<close>

definition huge_row :: row where
  "huge_row =
     \<lparr>Date = Some (Text ''2026-02-08''), Item = Some (Text ''tower''), Amount = Num (2 ^ 54),
      Currency = Some (Text ''TWD''), Payer = ''Christen'', Involved = Some (Text ''Christen'')\<rparr>"

definition one_twd_row :: row where
  "one_twd_row =
     \<lparr>Date = Some (Text ''2026-02-08''), Item = Some (Text ''mint''), Amount = Num 1,
      Currency = Some (Text ''TWD''), Payer = ''Christen'', Involved = Some (Text ''Bill'')\<rparr>"

subsection \<open>Example forms and states\<close>

definition ramen_form :: form where
  "ramen_form =
     \<lparr>date = ''2026-02-01'', item = ''ramen'', amount = 1000, currency = ''JPY'',
      payer = ''Christen'', involved = [''Christen'', ''Bill'']\<rparr>"

definition taxi_form :: form where
  "taxi_form =
     \<lparr>date = ''2026-02-02'', item = ''taxi'', amount = 500, currency = ''TWD'',
      payer = ''Bill'', involved = [''Christen'', ''Bill'']\<rparr>"

text \<open>The first form without item, and with amount 0.\<close>

definition no_item_form :: form where
  "no_item_form = ramen_form\<lparr>item := []\<rparr>"

definition no_amount_form :: form where
  "no_amount_form = ramen_form\<lparr>amount := 0\<rparr>"

text \<open>
  A session at time 1000 whose sheet holds the taxi row and whose cache holds the ledger
  fetched at that time.
\<close>

definition warm_state :: app_state where
  "warm_state =
     \<lparr>remote = [new_row taxi_form], cache = Some (1000, [scenario_entry2]),
      last_sync = 1000, last_sync_time = 0, last_sync_display = None\<rparr>"

text \<open>A run at time \<open>t\<close> with the store answering, and one in which the update fails.\<close>

definition store_up :: "rat \<Rightarrow> env" where
  "store_up t = \<lparr>now = t, read_ok = True, update_ok = True\<rparr>"

definition update_down :: "rat \<Rightarrow> env" where
  "update_down t = \<lparr>now = t, read_ok = True, update_ok = False\<rparr>"

section \<open>Division by zero\<close>

lemma split_on_nonempty: "split_on sep s \<noteq> []"
  by (induction s) (auto split: list.splits)

lemma inv_list_nonempty: "inv_list c \<noteq> []"
  by (simp add: inv_list_def split_on_nonempty)

text \<open>
  C8: the divisor of the share is the number of names that splitting the Involved cell on
  a comma gives; it is at least 1 for every cell, the empty one included, so the division
  is defined for every row that reaches it.
\<close>

theorem share_division_defined:
  "1 \<le> length (inv_list c) \<and> py_div amt_twd (length (inv_list c)) = Some (amt_twd / of_nat (length (inv_list c)))"
  using inv_list_nonempty [of c] by (cases "inv_list c") (simp_all add: py_div_def)

section \<open>Evaluation of the examples\<close>

lemma inv_list_both: "inv_list (Text ''Christen, Bill'') = [''Christen'', ''Bill'']"
  by (simp add: inv_list_def strip_def is_space_def)

lemma inv_list_blank: "inv_list Blank = [''nan'']"
  by (simp add: inv_list_def strip_def is_space_def)

lemma inv_list_zed: "inv_list (Text ''Zed'') = [''Zed'']"
  by (simp add: inv_list_def strip_def is_space_def)

lemmas settle_eval =
  settle_def row_step_def init_acc_def USERS_def py_div_def add_paid_def add_share_def
  EXCHANGE_RATE_def Let_def inv_list_both inv_list_blank inv_list_zed

lemma float_digits_abc: "float_digits ''abc'' = None"
  by (simp add: float_digits_def)

section \<open>Conservation\<close>

lemma distinct_USERS: "distinct USERS"
  by (simp add: USERS_def)

lemma dom_add_paid: "dom (add_paid us p x) = dom us"
  by (auto simp: add_paid_def split: option.splits)

lemma dom_add_share: "dom (add_share us p x) = dom us"
  by (auto simp: add_share_def split: option.splits)

lemma dom_fold_share: "dom (fold (\<lambda>person us. add_share us person x) ns us) = dom us"
  by (induction ns arbitrary: us) (simp_all add: dom_add_share)

lemma dom_init: "dom (user_stats init_acc) = set USERS"
  by (simp add: init_acc_def dom_map_of_conv_image_fst image_image)

lemma dom_row_step: "dom (user_stats (row_step fs a r)) = dom (user_stats a)"
  by (simp add: row_step_def Let_def dom_add_paid dom_fold_share split: option.splits)

lemma dom_fold_rows:
  "dom (user_stats (fold (\<lambda>r a. row_step fs a r) df a)) = dom (user_stats a)"
  by (induction df arbitrary: a) (simp_all add: dom_row_step)

lemma dom_settle: "dom (user_stats (settle fs df)) = set USERS"
  by (simp add: settle_def dom_fold_rows dom_init)

lemma paid_of_add_paid:
  "paid_of (add_paid us p x) u =
     (if u = p \<and> p \<in> dom us then paid_of us u + x else paid_of us u)"
  by (auto simp: paid_of_def add_paid_def split: option.splits)

lemma share_of_add_paid: "share_of (add_paid us p x) = share_of us"
  by (rule ext) (auto simp: share_of_def add_paid_def split: option.splits)

lemma paid_of_add_share: "paid_of (add_share us p x) = paid_of us"
  by (rule ext) (auto simp: paid_of_def add_share_def split: option.splits)

lemma share_of_add_share:
  "share_of (add_share us p x) u =
     (if u = p \<and> p \<in> dom us then share_of us u + x else share_of us u)"
  by (auto simp: share_of_def add_share_def split: option.splits)

lemma sum_list_no_bump:
  "p \<notin> set xs \<Longrightarrow>
   sum_list (map (\<lambda>u. if u = p then f u + x else f u) xs) = sum_list (map f xs)"
  by (induction xs) auto

lemma sum_list_bump:
  "distinct xs \<Longrightarrow> p \<in> set xs \<Longrightarrow>
   sum_list (map (\<lambda>u. if u = p then f u + x else f u) xs) = sum_list (map f xs) + (x::rat)"
  by (induction xs) (auto simp: sum_list_no_bump)

lemma paid_total_add_paid:
  assumes "dom us = set USERS" and "p \<in> set USERS"
  shows "paid_total (add_paid us p x) = paid_total us + x"
proof -
  have "paid_of (add_paid us p x) = (\<lambda>u. if u = p then paid_of us u + x else paid_of us u)"
    using assms by (simp add: paid_of_add_paid fun_eq_iff)
  then show ?thesis
    using sum_list_bump [OF distinct_USERS assms(2), of "paid_of us" x]
    by (simp add: paid_total_def)
qed

lemma share_total_add_paid: "share_total (add_paid us p x) = share_total us"
  by (simp add: share_total_def share_of_add_paid)

lemma paid_total_add_share: "paid_total (add_share us p x) = paid_total us"
  by (simp add: paid_total_def paid_of_add_share)

lemma share_total_add_share:
  assumes "dom us = set USERS" and "p \<in> set USERS"
  shows "share_total (add_share us p x) = share_total us + x"
proof -
  have "share_of (add_share us p x) = (\<lambda>u. if u = p then share_of us u + x else share_of us u)"
    using assms by (simp add: share_of_add_share fun_eq_iff)
  then show ?thesis
    using sum_list_bump [OF distinct_USERS assms(2), of "share_of us" x]
    by (simp add: share_total_def)
qed

lemma paid_total_fold:
  "paid_total (fold (\<lambda>person us. add_share us person x) ns us) = paid_total us"
  by (induction ns arbitrary: us) (simp_all add: paid_total_add_share)

lemma share_total_fold:
  "dom us = set USERS \<Longrightarrow> list_all (\<lambda>n. n \<in> set USERS) ns \<Longrightarrow>
   share_total (fold (\<lambda>person us. add_share us person x) ns us)
     = share_total us + x * of_nat (length ns)"
  by (induction ns arbitrary: us)
     (simp_all add: share_total_add_share dom_add_share algebra_simps)

lemma row_step_skips: "\<not> parses fs r \<Longrightarrow> row_step fs a r = a"
  by (auto simp: row_step_def parses_def split: option.splits)

lemma row_step_conserves:
  assumes "dom (user_stats a) = set USERS" and "\<not> parses fs r \<or> known_names r"
  shows "paid_total (user_stats (row_step fs a r)) - share_total (user_stats (row_step fs a r))
         = paid_total (user_stats a) - share_total (user_stats a)"
proof (cases "parses fs r")
  case False
  then show ?thesis by (simp add: row_step_skips)
next
  case True
  with assms(2) have kn: "known_names r" by simp
  from True obtain amt cur
    where am: "float_amount fs (Amount r) = Some amt" and cu: "Currency r = Some cur"
    by (auto simp: parses_def)
  from kn obtain c
    where ic: "Involved r = Some c" and nm: "list_all (\<lambda>n. n \<in> set USERS) (inv_list c)"
      and py: "Payer r \<in> set USERS"
    by (auto simp: known_names_def split: option.splits)
  have len: "length (inv_list c) \<noteq> 0"
    using inv_list_nonempty [of c] by simp
  show ?thesis
    using assms(1) py nm len
    by (simp add: row_step_def Let_def am cu ic py_div_def paid_total_fold share_total_fold
        dom_add_paid paid_total_add_paid share_total_add_paid)
qed

lemma fold_rows_conserves:
  "dom (user_stats a) = set USERS \<Longrightarrow>
   list_all (\<lambda>r. \<not> parses fs r \<or> known_names r) df \<Longrightarrow>
   paid_total (user_stats (fold (\<lambda>r a. row_step fs a r) df a))
     - share_total (user_stats (fold (\<lambda>r a. row_step fs a r) df a))
     = paid_total (user_stats a) - share_total (user_stats a)"
proof (induction df arbitrary: a)
  case Nil
  then show ?case by simp
next
  case (Cons r df)
  have d: "dom (user_stats (row_step fs a r)) = set USERS"
    using Cons.prems(1) by (simp add: dom_row_step)
  have k: "\<not> parses fs r \<or> known_names r"
    and rest: "list_all (\<lambda>r. \<not> parses fs r \<or> known_names r) df"
    using Cons.prems(2) by simp_all
  from Cons.IH [OF d rest] row_step_conserves [OF Cons.prems(1) k]
  show ?case by simp
qed

lemma those_map_Some: "those (map (\<lambda>u. Some (f u)) xs) = Some (map f xs)"
  by (induction xs) simp_all

lemma balance_sum_eq:
  assumes "dom us = set USERS"
  shows "balance_sum us = Some (paid_total us - share_total us)"
proof -
  have "map (balance us) USERS = map (\<lambda>u. Some (paid_of us u - share_of us u)) USERS"
    using assms
    by (intro map_cong) (auto simp: balance_def paid_of_def share_of_def split: option.splits)
  then have "balance_sum us = Some (sum_list (map (\<lambda>u. paid_of us u - share_of us u) USERS))"
    unfolding balance_sum_def by (simp only: those_map_Some option.map)
  then show ?thesis
    by (simp add: paid_total_def share_total_def sum_list_subtractf)
qed

text \<open>
  In exact arithmetic: when every row that parses names a user as its payer and only users
  in its Involved cell, the balances of the users sum to 0.
\<close>

lemma exact_conservation:
  assumes "list_all (\<lambda>r. \<not> parses fs r \<or> known_names r) df"
  shows "balance_sum (user_stats (settle fs df)) = Some 0"
proof -
  have "paid_total (user_stats init_acc) - share_total (user_stats init_acc) = 0"
    by (simp add: paid_total_def share_total_def paid_of_def share_of_def init_acc_def
        USERS_def)
  with fold_rows_conserves [OF dom_init assms] show ?thesis
    by (simp add: settle_def balance_sum_eq dom_fold_rows dom_init)
qed

section \<open>Rounding to binary64\<close>

lemma pow2_pos: "0 < pow2 k"
  by (simp add: pow2_def)

lemma pow2_powi: "pow2 k = 2 powi k"
  by (simp add: pow2_def power_int_def field_simps)

lemma pow2_shift: "pow2 (e - 52) = pow2 e / 2 ^ 52"
  by (simp add: pow2_powi power_int_diff)

lemma exponent_lower:
  assumes "x \<noteq> 0"
  shows "pow2 (exponent x) \<le> \<bar>x\<bar>"
proof (cases "1 \<le> \<bar>x\<bar>")
  case True
  then have n: "0 < \<lfloor>\<bar>x\<bar>\<rfloor>" by simp
  from bitlen_bounds [OF n] have b: "2 ^ nat (bitlen \<lfloor>\<bar>x\<bar>\<rfloor> - 1) \<le> \<lfloor>\<bar>x\<bar>\<rfloor>" ..
  from n have ge: "0 \<le> bitlen \<lfloor>\<bar>x\<bar>\<rfloor> - 1"
    by (simp add: bitlen_alt_def)
  have "(2::rat) ^ nat (bitlen \<lfloor>\<bar>x\<bar>\<rfloor> - 1) = of_int (2 ^ nat (bitlen \<lfloor>\<bar>x\<bar>\<rfloor> - 1))"
    by simp
  also have "\<dots> \<le> of_int \<lfloor>\<bar>x\<bar>\<rfloor>"
    using b by (simp only: of_int_le_iff)
  also have "\<dots> \<le> \<bar>x\<bar>" by simp
  finally show ?thesis
    using True ge by (simp add: exponent_def pow2_def)
next
  case False
  with assms have lt: "0 < \<bar>x\<bar>" "\<bar>x\<bar> < 1" by simp_all
  then have "1 < 1 / \<bar>x\<bar>" by (simp add: field_simps)
  then have c: "0 < \<lceil>1 / \<bar>x\<bar>\<rceil> - 1"
    by (simp add: less_ceiling_iff)
  define b where "b = bitlen (\<lceil>1 / \<bar>x\<bar>\<rceil> - 1)"
  from bitlen_bounds [OF c] have "\<lceil>1 / \<bar>x\<bar>\<rceil> - 1 < 2 ^ nat b"
    unfolding b_def ..
  then have "\<lceil>1 / \<bar>x\<bar>\<rceil> \<le> 2 ^ nat b" by simp
  then have i: "(of_int \<lceil>1 / \<bar>x\<bar>\<rceil> :: rat) \<le> of_int (2 ^ nat b)"
    by (simp only: of_int_le_iff)
  have "1 / \<bar>x\<bar> \<le> of_int \<lceil>1 / \<bar>x\<bar>\<rceil>"
    by (rule le_of_int_ceiling)
  also note i
  also have "(of_int (2 ^ nat b) :: rat) = 2 ^ nat b" by simp
  finally have "1 / \<bar>x\<bar> \<le> 2 ^ nat b" .
  then have le: "1 / 2 ^ nat b \<le> \<bar>x\<bar>"
    using lt by (simp add: field_simps)
  from c have "0 < b" unfolding b_def by (simp add: bitlen_alt_def)
  with le False show ?thesis
    by (simp add: exponent_def pow2_def b_def [symmetric])
qed

lemma exponent_upper:
  assumes "x \<noteq> 0"
  shows "\<bar>x\<bar> < pow2 (exponent x + 1)"
proof (cases "1 \<le> \<bar>x\<bar>")
  case True
  then have n: "0 < \<lfloor>\<bar>x\<bar>\<rfloor>" by simp
  from bitlen_bounds [OF n] have b: "\<lfloor>\<bar>x\<bar>\<rfloor> < 2 ^ nat (bitlen \<lfloor>\<bar>x\<bar>\<rfloor>)" ..
  then have "\<lfloor>\<bar>x\<bar>\<rfloor> + 1 \<le> 2 ^ nat (bitlen \<lfloor>\<bar>x\<bar>\<rfloor>)" by simp
  then have i: "(of_int (\<lfloor>\<bar>x\<bar>\<rfloor> + 1) :: rat) \<le> of_int (2 ^ nat (bitlen \<lfloor>\<bar>x\<bar>\<rfloor>))"
    by (simp only: of_int_le_iff)
  have "\<bar>x\<bar> < of_int (\<lfloor>\<bar>x\<bar>\<rfloor> + 1)" by simp linarith
  also note i
  also have "(of_int (2 ^ nat (bitlen \<lfloor>\<bar>x\<bar>\<rfloor>)) :: rat) = 2 ^ nat (bitlen \<lfloor>\<bar>x\<bar>\<rfloor>)" by simp
  finally show ?thesis
    using True bitlen_nonneg [of "\<lfloor>\<bar>x\<bar>\<rfloor>"] by (simp add: exponent_def pow2_def)
next
  case False
  with assms have lt: "0 < \<bar>x\<bar>" "\<bar>x\<bar> < 1" by simp_all
  then have "1 < 1 / \<bar>x\<bar>" by (simp add: field_simps)
  then have c: "0 < \<lceil>1 / \<bar>x\<bar>\<rceil> - 1"
    by (simp add: less_ceiling_iff)
  define b where "b = bitlen (\<lceil>1 / \<bar>x\<bar>\<rceil> - 1)"
  from c have b1: "1 \<le> b" unfolding b_def by (simp add: bitlen_alt_def)
  from bitlen_bounds [OF c] have "2 ^ nat (b - 1) \<le> \<lceil>1 / \<bar>x\<bar>\<rceil> - 1"
    unfolding b_def ..
  then have i: "(of_int (2 ^ nat (b - 1)) :: rat) \<le> of_int (\<lceil>1 / \<bar>x\<bar>\<rceil> - 1)"
    by (simp only: of_int_le_iff)
  have "(2::rat) ^ nat (b - 1) = of_int (2 ^ nat (b - 1))" by simp
  also note i
  also have "(of_int (\<lceil>1 / \<bar>x\<bar>\<rceil> - 1) :: rat) < 1 / \<bar>x\<bar>"
    by simp linarith
  finally have "(2::rat) ^ nat (b - 1) < 1 / \<bar>x\<bar>" .
  then have u: "\<bar>x\<bar> < 1 / 2 ^ nat (b - 1)"
    using lt by (simp add: field_simps)
  have "nat (- (- b + 1)) = nat (b - 1)" by simp
  with u b1 False show ?thesis
    by (auto simp: exponent_def pow2_def b_def [symmetric])
qed

lemma round_half_even_error: "\<bar>of_int (round_half_even m) - m\<bar> \<le> 1 / 2"
proof -
  have "of_int \<lfloor>m\<rfloor> \<le> m" and "m < of_int \<lfloor>m\<rfloor> + 1"
    by linarith+
  then show ?thesis
    by (auto simp: round_half_even_def Let_def)
qed

lemma binary64_error: "\<bar>binary64 x - x\<bar> \<le> \<bar>x\<bar> / 2 ^ 53"
proof (cases "x = 0")
  case True
  then show ?thesis by (simp add: binary64_def)
next
  case False
  define s where "s = pow2 (exponent x - 52)"
  have s: "0 < s" by (simp add: s_def pow2_pos)
  have "binary64 x - x = (of_int (round_half_even (x / s)) - x / s) * s"
    using False s by (simp add: binary64_def Let_def s_def [symmetric] field_simps)
  then have "\<bar>binary64 x - x\<bar> = \<bar>of_int (round_half_even (x / s)) - x / s\<bar> * s"
    using s by (simp add: abs_mult)
  also have "\<dots> \<le> (1 / 2) * s"
    using round_half_even_error [of "x / s"] s by (intro mult_right_mono) simp_all
  also have "\<dots> = pow2 (exponent x) / 2 ^ 53"
    by (simp add: s_def pow2_shift)
  also have "\<dots> \<le> \<bar>x\<bar> / 2 ^ 53"
    using exponent_lower [OF False] by (simp add: divide_right_mono)
  finally show ?thesis .
qed

lemma binary64_model: "\<bar>binary64 z - z\<bar> \<le> (1 / 2 ^ 53) * \<bar>z\<bar>"
  using binary64_error [of z] by simp

text \<open>The values of \<open>binary64\<close> that the example ledgers need.\<close>

lemma binary64_values:
  "binary64 1 = 1"
  "binary64 (83 / 400) = 7475975381435023 / 36028797018963968"
  "binary64 (7475975381435023 / 36028797018963968) = 7475975381435023 / 36028797018963968"
  "binary64 (7475975381435023 / 72057594037927936) = 7475975381435023 / 72057594037927936"
  "binary64 3 = 3"
  "binary64 (22427926144305069 / 36028797018963968) = 5606981536076267 / 9007199254740992"
  "binary64 (29903901525740091 / 36028797018963968) = 7475975381435023 / 9007199254740992"
  "binary64 (5606981536076267 / 9007199254740992) = 5606981536076267 / 9007199254740992"
  "binary64 (5606981536076267 / 27021597764222976) = 7475975381435023 / 36028797018963968"
  "binary64 (22427926144305069 / 72057594037927936) = 5606981536076267 / 18014398509481984"
  "binary64 (18689938453587557 / 36028797018963968) = 4672484613396889 / 9007199254740992"
  "binary64 (- (3737987690717511 / 36028797018963968)) = - (3737987690717511 / 36028797018963968)"
  "binary64 (467248461339689 / 4503599627370496) = 467248461339689 / 4503599627370496"
  "binary64 18014398509481984 = 18014398509481984"
  "binary64 18014398509481985 = 18014398509481984"
  "binary64 0 = 0"
  "binary64 (- 1) = - 1"
  "binary64 100 = 100"
  "binary64 50 = 50"
  "binary64 (- 50) = - 50"
  "binary64 1000 = 1000"
  "binary64 (934496922679377875 / 4503599627370496) = 415 / 2"
  "binary64 (415 / 2) = 415 / 2"
  "binary64 (415 / 4) = 415 / 4"
  "binary64 500 = 500"
  "binary64 (1415 / 2) = 1415 / 2"
  "binary64 250 = 250"
  "binary64 (1415 / 4) = 1415 / 4"
  "binary64 (- (585 / 4)) = - (585 / 4)"
  "binary64 (585 / 4) = 585 / 4"
  by code_simp+

lemma row_step_r_exact: "row_step_r (\<lambda>x. x) fs a r = row_step fs a r"
proof -
  have p: "add_paid_r (\<lambda>x. x) = add_paid" and s: "add_share_r (\<lambda>x. x) = add_share"
    by (simp_all add: fun_eq_iff add_paid_r_def add_paid_def add_share_r_def add_share_def)
  show ?thesis
    unfolding row_step_r_def row_step_def p s by (simp add: Let_def split: option.splits)
qed

lemma inv_list_first: "inv_list (Text ''Christen'') = [''Christen'']"
  by (simp add: inv_list_def strip_def is_space_def)

lemma inv_list_second: "inv_list (Text ''Bill'') = [''Bill'']"
  by (simp add: inv_list_def strip_def is_space_def)

lemma inv_list_three: "inv_list (Text ''Christen, Bill, Bill'') = [''Christen'', ''Bill'', ''Bill'']"
  by (simp add: inv_list_def strip_def is_space_def)

lemmas settle_r_eval =
  settle_r_def row_step_r_def init_acc_def USERS_def py_div_def add_paid_r_def add_share_r_def
  EXCHANGE_RATE_def Let_def inv_list_both inv_list_blank inv_list_zed inv_list_first
  inv_list_second inv_list_three balance_sum_r_def balance_r_def binary64_values

section \<open>The drift of the balances\<close>

lemma acc_step_error:
  fixes rnd :: "rat \<Rightarrow> rat"
  assumes model: "\<And>z. \<bar>rnd z - z\<bar> \<le> u * \<bar>z\<bar>" and u: "0 \<le> u"
    and t: "0 \<le> t" "t \<le> 1" and x: "\<bar>x\<bar> \<le> (1 + t) * S" and S: "0 \<le> S"
  shows "\<bar>rnd (x + y) - (x + y)\<bar> \<le> 2 * u * (S + \<bar>y\<bar>)"
proof -
  define W where "W = S + \<bar>y\<bar>"
  have W: "0 \<le> W" using S by (simp add: W_def)
  have "\<bar>y\<bar> \<le> (1 + t) * \<bar>y\<bar>"
    using t by (simp add: mult_le_cancel_right1)
  with x have "\<bar>x\<bar> + \<bar>y\<bar> \<le> (1 + t) * W"
    by (simp add: W_def distrib_left)
  then have xy: "\<bar>x + y\<bar> \<le> (1 + t) * W" by linarith
  have "(1 + t) * W \<le> 2 * W"
    using t W by (intro mult_right_mono) simp_all
  with xy have "\<bar>x + y\<bar> \<le> 2 * W" by linarith
  then have "u * \<bar>x + y\<bar> \<le> u * (2 * W)"
    using u by (rule mult_left_mono)
  also have "\<dots> = 2 * u * W" by simp
  finally have "u * \<bar>x + y\<bar> \<le> 2 * u * W" .
  with model [of "x + y"] have "\<bar>rnd (x + y) - (x + y)\<bar> \<le> 2 * u * W" by linarith
  then show ?thesis by (simp only: W_def)
qed

lemma acc_step_size:
  fixes rnd :: "rat \<Rightarrow> rat"
  assumes model: "\<And>z. \<bar>rnd z - z\<bar> \<le> u * \<bar>z\<bar>" and u: "0 \<le> u"
    and t: "0 \<le> t" "t \<le> 1" and x: "\<bar>x\<bar> \<le> (1 + t) * S" and S: "0 \<le> S"
  shows "\<bar>rnd (x + y)\<bar> \<le> (1 + (t + 2 * u)) * (S + \<bar>y\<bar>)"
proof -
  define W where "W = S + \<bar>y\<bar>"
  have W: "0 \<le> W" using S by (simp add: W_def)
  have "\<bar>y\<bar> \<le> (1 + t) * \<bar>y\<bar>"
    using t by (simp add: mult_le_cancel_right1)
  with x have "\<bar>x\<bar> + \<bar>y\<bar> \<le> (1 + t) * W"
    by (simp add: W_def distrib_left)
  then have xy: "\<bar>x + y\<bar> \<le> (1 + t) * W" by linarith
  have e: "\<bar>rnd (x + y) - (x + y)\<bar> \<le> 2 * u * W"
    using acc_step_error [OF model u t x S, of y] by (simp only: W_def)
  have "\<bar>rnd (x + y)\<bar> \<le> \<bar>x + y\<bar> + \<bar>rnd (x + y) - (x + y)\<bar>" by linarith
  also have "\<dots> \<le> (1 + t) * W + 2 * u * W" using xy e by linarith
  also have "\<dots> = (1 + (t + 2 * u)) * W" by (simp add: algebra_simps)
  finally show ?thesis by (simp only: W_def)
qed

lemma dom_add_paid_r: "dom (add_paid_r rnd us p x) = dom us"
  by (auto simp: add_paid_r_def split: option.splits)

lemma dom_add_share_r: "dom (add_share_r rnd us p x) = dom us"
  by (auto simp: add_share_r_def split: option.splits)

lemma paid_of_add_paid_r:
  "paid_of (add_paid_r rnd us p x) U =
     (if U = p \<and> p \<in> dom us then rnd (paid_of us p + x) else paid_of us U)"
  by (auto simp: paid_of_def add_paid_r_def split: option.splits)

lemma share_of_add_paid_r: "share_of (add_paid_r rnd us p x) = share_of us"
  by (rule ext) (auto simp: share_of_def add_paid_r_def split: option.splits)

lemma paid_of_add_share_r: "paid_of (add_share_r rnd us p x) = paid_of us"
  by (rule ext) (auto simp: paid_of_def add_share_r_def split: option.splits)

lemma share_of_add_share_r:
  "share_of (add_share_r rnd us p x) U =
     (if U = p \<and> p \<in> dom us then rnd (share_of us p + x) else share_of us U)"
  by (auto simp: share_of_def add_share_r_def split: option.splits)

lemma paid_total_add_paid_r:
  assumes "dom us = set USERS" and "p \<in> set USERS"
  shows "paid_total (add_paid_r rnd us p x)
           = paid_total us + (rnd (paid_of us p + x) - paid_of us p)"
proof -
  have "paid_of (add_paid_r rnd us p x)
          = (\<lambda>U. if U = p then paid_of us U + (rnd (paid_of us p + x) - paid_of us p)
                  else paid_of us U)"
    using assms by (auto simp: paid_of_add_paid_r fun_eq_iff)
  then show ?thesis
    using sum_list_bump [OF distinct_USERS assms(2), of "paid_of us"
        "rnd (paid_of us p + x) - paid_of us p"]
    by (simp add: paid_total_def)
qed

lemma share_total_add_share_r:
  assumes "dom us = set USERS" and "p \<in> set USERS"
  shows "share_total (add_share_r rnd us p x)
           = share_total us + (rnd (share_of us p + x) - share_of us p)"
proof -
  have "share_of (add_share_r rnd us p x)
          = (\<lambda>U. if U = p then share_of us U + (rnd (share_of us p + x) - share_of us p)
                  else share_of us U)"
    using assms by (auto simp: share_of_add_share_r fun_eq_iff)
  then show ?thesis
    using sum_list_bump [OF distinct_USERS assms(2), of "share_of us"
        "rnd (share_of us p + x) - share_of us p"]
    by (simp add: share_total_def)
qed

lemma size_grows:
  fixes x :: rat
  assumes "0 \<le> t" and "0 \<le> d" and "0 \<le> S" and "0 \<le> y" and "\<bar>x\<bar> \<le> (1 + t) * S"
  shows "\<bar>x\<bar> \<le> (1 + (t + d)) * (S + y)"
proof -
  have "(1 + t) * S \<le> (1 + (t + d)) * (S + y)"
    using assms by (intro mult_mono) simp_all
  with assms(5) show ?thesis by linarith
qed

lemma add_share_r_size:
  fixes rnd :: "rat \<Rightarrow> rat"
  assumes model: "\<And>z. \<bar>rnd z - z\<bar> \<le> u * \<bar>z\<bar>" and u: "0 \<le> u"
    and t: "0 \<le> t" "t \<le> 1" and S: "0 \<le> S"
    and size: "\<forall>U\<in>set USERS. \<bar>share_of us U\<bar> \<le> (1 + t) * S"
    and U: "U \<in> set USERS"
  shows "\<bar>share_of (add_share_r rnd us p s) U\<bar> \<le> (1 + (t + 2 * u)) * (S + \<bar>s\<bar>)"
proof (cases "U = p \<and> p \<in> dom us")
  case True
  with size U have "\<bar>share_of us p\<bar> \<le> (1 + t) * S" by simp
  from acc_step_size [OF model u t this S, of s] True show ?thesis
    by (simp add: share_of_add_share_r)
next
  case False
  then have eq: "share_of (add_share_r rnd us p s) U = share_of us U"
    by (auto simp: share_of_add_share_r)
  from size U have "\<bar>share_of us U\<bar> \<le> (1 + t) * S" by simp
  from size_grows [OF t(1) _ S _ this, of "2 * u" "\<bar>s\<bar>"] u show ?thesis
    by (simp add: eq)
qed

lemma add_paid_r_size:
  fixes rnd :: "rat \<Rightarrow> rat"
  assumes model: "\<And>z. \<bar>rnd z - z\<bar> \<le> u * \<bar>z\<bar>" and u: "0 \<le> u"
    and t: "0 \<le> t" "t \<le> 1" and S: "0 \<le> S"
    and size: "\<forall>U\<in>set USERS. \<bar>paid_of us U\<bar> \<le> (1 + t) * S"
    and U: "U \<in> set USERS"
  shows "\<bar>paid_of (add_paid_r rnd us p a) U\<bar> \<le> (1 + (t + 2 * u)) * (S + \<bar>a\<bar>)"
proof (cases "U = p \<and> p \<in> dom us")
  case True
  with size U have "\<bar>paid_of us p\<bar> \<le> (1 + t) * S" by simp
  from acc_step_size [OF model u t this S, of a] True show ?thesis
    by (simp add: paid_of_add_paid_r)
next
  case False
  then have eq: "paid_of (add_paid_r rnd us p a) U = paid_of us U"
    by (auto simp: paid_of_add_paid_r)
  from size U have "\<bar>paid_of us U\<bar> \<le> (1 + t) * S" by simp
  from size_grows [OF t(1) _ S _ this, of "2 * u" "\<bar>a\<bar>"] u show ?thesis
    by (simp add: eq)
qed

lemma dom_fold_share_r:
  "dom (fold (\<lambda>person us. add_share_r rnd us person x) ns us) = dom us"
  by (induction ns arbitrary: us) (simp_all add: dom_add_share_r)

lemma paid_of_fold_share_r:
  "paid_of (fold (\<lambda>person us. add_share_r rnd us person x) ns us) = paid_of us"
  by (induction ns arbitrary: us) (simp_all add: paid_of_add_share_r)

lemma share_fold_r:
  fixes rnd :: "rat \<Rightarrow> rat"
  assumes model: "\<And>z. \<bar>rnd z - z\<bar> \<le> u * \<bar>z\<bar>" and u: "0 \<le> u"
  shows "dom us = set USERS \<Longrightarrow> list_all (\<lambda>n. n \<in> set USERS) ns \<Longrightarrow>
         0 \<le> t \<Longrightarrow> t + 2 * of_nat (length ns) * u \<le> 1 \<Longrightarrow> 0 \<le> S \<Longrightarrow>
         \<forall>U\<in>set USERS. \<bar>share_of us U\<bar> \<le> (1 + t) * S \<Longrightarrow>
         (\<forall>U\<in>set USERS.
            \<bar>share_of (fold (\<lambda>person us. add_share_r rnd us person s) ns us) U\<bar>
              \<le> (1 + (t + 2 * of_nat (length ns) * u)) * (S + of_nat (length ns) * \<bar>s\<bar>)) \<and>
         \<bar>share_total (fold (\<lambda>person us. add_share_r rnd us person s) ns us)
            - (share_total us + of_nat (length ns) * s)\<bar>
           \<le> of_nat (length ns) * (2 * u * (S + of_nat (length ns) * \<bar>s\<bar>))"
proof (induction ns arbitrary: us t S)
  case Nil
  then show ?case by simp
next
  case (Cons p ns)
  define k :: rat where "k = of_nat (length ns)"
  define us1 where "us1 = add_share_r rnd us p s"
  define fin where "fin = fold (\<lambda>person us. add_share_r rnd us person s) ns us1"
  have k: "0 \<le> k" by (simp add: k_def)
  have p: "p \<in> set USERS" and ns: "list_all (\<lambda>n. n \<in> set USERS) ns"
    using Cons.prems(2) by simp_all
  have tk: "t + 2 * (k + 1) * u \<le> 1"
    using Cons.prems(4) by (simp add: k_def algebra_simps)
  have "0 \<le> 2 * (k + 1) * u" using k u by simp
  with tk have t1: "t \<le> 1" by linarith
  have dom1: "dom us1 = set USERS"
    using Cons.prems(1) by (simp add: us1_def dom_add_share_r)
  have size1: "\<forall>U\<in>set USERS. \<bar>share_of us1 U\<bar> \<le> (1 + (t + 2 * u)) * (S + \<bar>s\<bar>)"
    unfolding us1_def
    using add_share_r_size [OF model u Cons.prems(3) t1 Cons.prems(5) Cons.prems(6)]
    by blast
  have t2: "0 \<le> t + 2 * u" using Cons.prems(3) u by simp
  have tk2: "(t + 2 * u) + 2 * of_nat (length ns) * u \<le> 1"
    using tk by (simp add: k_def algebra_simps)
  have S1: "0 \<le> S + \<bar>s\<bar>" using Cons.prems(5) by simp
  note IH = Cons.IH [OF dom1 ns t2 tk2 S1 size1, folded fin_def k_def]
  have sizeF: "\<forall>U\<in>set USERS. \<bar>share_of fin U\<bar>
                 \<le> (1 + (t + 2 * (k + 1) * u)) * (S + (k + 1) * \<bar>s\<bar>)"
  proof
    fix U assume "U \<in> set USERS"
    with IH have "\<bar>share_of fin U\<bar> \<le> (1 + (t + 2 * u + 2 * k * u)) * (S + \<bar>s\<bar> + k * \<bar>s\<bar>)"
      by blast
    then show "\<bar>share_of fin U\<bar> \<le> (1 + (t + 2 * (k + 1) * u)) * (S + (k + 1) * \<bar>s\<bar>)"
      by (simp add: algebra_simps)
  qed
  from IH have errF: "\<bar>share_total fin - (share_total us1 + k * s)\<bar>
                        \<le> k * (2 * u * (S + \<bar>s\<bar> + k * \<bar>s\<bar>))"
    by blast
  have fp: "\<bar>share_of us p\<bar> \<le> (1 + t) * S"
    using Cons.prems(6) p by blast
  have e1: "\<bar>rnd (share_of us p + s) - (share_of us p + s)\<bar> \<le> 2 * u * (S + \<bar>s\<bar>)"
    by (rule acc_step_error [OF model u Cons.prems(3) t1 fp Cons.prems(5)])
  have st1: "share_total us1 = share_total us + (rnd (share_of us p + s) - share_of us p)"
    unfolding us1_def by (rule share_total_add_share_r [OF Cons.prems(1) p])
  have W: "S + \<bar>s\<bar> \<le> S + \<bar>s\<bar> + k * \<bar>s\<bar>" using k by simp
  have "2 * u * (S + \<bar>s\<bar>) \<le> 2 * u * (S + \<bar>s\<bar> + k * \<bar>s\<bar>)"
    using W u by (intro mult_left_mono) simp_all
  with e1 have e1': "\<bar>rnd (share_of us p + s) - (share_of us p + s)\<bar>
                       \<le> 2 * u * (S + \<bar>s\<bar> + k * \<bar>s\<bar>)"
    by linarith
  have "\<bar>share_total fin - (share_total us + (k + 1) * s)\<bar>
          \<le> \<bar>share_total fin - (share_total us1 + k * s)\<bar>
            + \<bar>rnd (share_of us p + s) - (share_of us p + s)\<bar>"
    unfolding st1 by (simp add: algebra_simps)
  also have "\<dots> \<le> k * (2 * u * (S + \<bar>s\<bar> + k * \<bar>s\<bar>)) + 2 * u * (S + \<bar>s\<bar> + k * \<bar>s\<bar>)"
    using errF e1' by linarith
  also have "\<dots> = (k + 1) * (2 * u * (S + (k + 1) * \<bar>s\<bar>))"
    by (simp add: algebra_simps)
  finally have errT: "\<bar>share_total fin - (share_total us + (k + 1) * s)\<bar>
                        \<le> (k + 1) * (2 * u * (S + (k + 1) * \<bar>s\<bar>))" .
  have len: "(of_nat (length (p # ns)) :: rat) = k + 1"
    by (simp add: k_def)
  have fold_eq: "fold (\<lambda>person us. add_share_r rnd us person s) (p # ns) us = fin"
    by (simp add: fin_def us1_def)
  show ?case
    unfolding fold_eq len using sizeF errT by blast
qed

lemma row_step_r_skips:
  "local_amount rnd fs r = None \<Longrightarrow> row_step_r rnd fs a r = a"
  by (auto simp: local_amount_def row_step_r_def split: option.splits)

lemma row_step_r_known:
  assumes "local_amount rnd fs r = Some a" and "Involved r = Some c"
  shows "user_stats (row_step_r rnd fs acc r) =
           fold (\<lambda>person us. add_share_r rnd us person (rnd (a / of_nat (length (inv_list c)))))
             (inv_list c) (add_paid_r rnd (user_stats acc) (Payer r) a)"
proof -
  have "length (inv_list c) \<noteq> 0" using inv_list_nonempty [of c] by simp
  with assms show ?thesis
    by (auto simp: local_amount_def row_step_r_def py_div_def Let_def split: option.splits)
qed

lemma mult_abs_div_cancel:
  fixes k :: rat
  assumes k: "0 < k"
  shows "k * \<bar>a / k\<bar> = \<bar>a\<bar>"
proof -
  have kk: "\<bar>k\<bar> = k" using k by (rule abs_of_pos)
  have "k * \<bar>a / k\<bar> = k * (\<bar>a\<bar> / \<bar>k\<bar>)" by (simp only: abs_divide)
  also have "\<dots> = k * (\<bar>a\<bar> / k)" by (simp only: kk)
  also have "\<dots> = \<bar>a\<bar>" using k by simp
  finally show ?thesis .
qed

lemma share_size:
  fixes rnd :: "rat \<Rightarrow> rat"
  assumes model: "\<And>z. \<bar>rnd z - z\<bar> \<le> u * \<bar>z\<bar>" and k: "0 < k"
  shows "k * \<bar>rnd (a / k)\<bar> \<le> (1 + u) * \<bar>a\<bar>" and "\<bar>a - k * rnd (a / k)\<bar> \<le> u * \<bar>a\<bar>"
proof -
  have e: "\<bar>rnd (a / k) - a / k\<bar> \<le> u * \<bar>a / k\<bar>" by (rule model)
  have ak: "k * \<bar>a / k\<bar> = \<bar>a\<bar>" by (rule mult_abs_div_cancel [OF k])
  have "k * \<bar>rnd (a / k) - a / k\<bar> \<le> k * (u * \<bar>a / k\<bar>)"
    using e k by (intro mult_left_mono) simp_all
  also have "\<dots> = u * (k * \<bar>a / k\<bar>)" by simp
  also have "\<dots> = u * \<bar>a\<bar>" by (simp only: ak)
  finally have ke: "k * \<bar>rnd (a / k) - a / k\<bar> \<le> u * \<bar>a\<bar>" .
  have "a - k * rnd (a / k) = k * (a / k - rnd (a / k))"
    using k by (simp add: algebra_simps)
  then have "\<bar>a - k * rnd (a / k)\<bar> = k * \<bar>rnd (a / k) - a / k\<bar>"
    using k by (simp add: abs_mult abs_minus_commute)
  with ke show "\<bar>a - k * rnd (a / k)\<bar> \<le> u * \<bar>a\<bar>" by simp
  have "\<bar>rnd (a / k)\<bar> \<le> \<bar>a / k\<bar> + \<bar>rnd (a / k) - a / k\<bar>" by linarith
  then have "k * \<bar>rnd (a / k)\<bar> \<le> k * (\<bar>a / k\<bar> + \<bar>rnd (a / k) - a / k\<bar>)"
    using k by (intro mult_left_mono) simp_all
  also have "\<dots> = \<bar>a\<bar> + k * \<bar>rnd (a / k) - a / k\<bar>"
    by (simp only: distrib_left ak)
  also have "\<dots> \<le> \<bar>a\<bar> + u * \<bar>a\<bar>" using ke by simp
  finally show "k * \<bar>rnd (a / k)\<bar> \<le> (1 + u) * \<bar>a\<bar>" by (simp add: algebra_simps)
qed

lemma row_step_r_drift:
  fixes rnd :: "rat \<Rightarrow> rat"
  assumes model: "\<And>z. \<bar>rnd z - z\<bar> \<le> u * \<bar>z\<bar>" and u0: "0 \<le> u" and u1: "u \<le> 1"
    and inv: "drift_inv u (user_stats acc) n l A"
    and la: "local_amount rnd fs r = Some a"
    and kn: "known_names r"
    and ic: "Involved r = Some c"
    and n1: "2 * of_nat (n + 1) * u \<le> 1"
    and l1: "2 * of_nat (l + length (inv_list c)) * u \<le> 1"
  shows "drift_inv u (user_stats (row_step_r rnd fs acc r))
           (n + 1) (l + length (inv_list c)) (A + \<bar>a\<bar>)"
proof -
  define us where "us = user_stats acc"
  define N :: rat where "N = of_nat n"
  define L :: rat where "L = of_nat l"
  define K :: rat where "K = of_nat (length (inv_list c))"
  define s where "s = rnd (a / K)"
  define us2 where "us2 = add_paid_r rnd us (Payer r) a"
  define us3 where "us3 = fold (\<lambda>person us. add_share_r rnd us person s) (inv_list c) us2"
  define A' where "A' = A + \<bar>a\<bar>"
  have res: "user_stats (row_step_r rnd fs acc r) = us3"
    unfolding us3_def us2_def s_def K_def us_def by (rule row_step_r_known [OF la ic])
  from inv have dom: "dom us = set USERS" and A: "0 \<le> A"
    and sizeP: "\<forall>U\<in>set USERS. \<bar>paid_of us U\<bar> \<le> (1 + 2 * N * u) * A"
    and sizeS: "\<forall>U\<in>set USERS. \<bar>share_of us U\<bar> \<le> (1 + 2 * L * u) * ((1 + u) * A)"
    and D: "\<bar>paid_total us - share_total us\<bar> \<le> u * A * (3 * N + 4 * L)"
    by (simp_all add: drift_inv_def us_def N_def L_def)
  from kn ic have P: "Payer r \<in> set USERS"
    and names: "list_all (\<lambda>n. n \<in> set USERS) (inv_list c)"
    by (simp_all add: known_names_def)
  have N0: "0 \<le> N" and L0: "0 \<le> L" by (simp_all add: N_def L_def)
  have K0: "0 < K" using inv_list_nonempty [of c] by (simp add: K_def)
  have A': "0 \<le> A'" and AA': "A \<le> A'" and aA': "\<bar>a\<bar> \<le> A'"
    using A by (simp_all add: A'_def)
  have nn: "2 * N * u + 2 * u \<le> 1"
    using n1 by (simp add: N_def algebra_simps)
  have ll: "2 * L * u + 2 * K * u \<le> 1"
    using l1 by (simp add: L_def K_def algebra_simps)
  have tN0: "0 \<le> 2 * N * u" using N0 u0 by simp
  have tL0: "0 \<le> 2 * L * u" using L0 u0 by simp
  have tK0: "0 \<le> 2 * K * u" using K0 u0 by simp
  have tN1: "2 * N * u \<le> 1" using nn u0 by linarith
  have tL1: "2 * L * u \<le> 1" using ll tK0 by linarith
  have dom2: "dom us2 = set USERS" by (simp add: us2_def dom_add_paid_r dom)
  have dom3: "dom us3 = set USERS" by (simp add: us3_def dom_fold_share_r dom2)
  \<comment> \<open>the paid buckets\<close>
  have sizeP2: "\<forall>U\<in>set USERS. \<bar>paid_of us2 U\<bar> \<le> (1 + (2 * N * u + 2 * u)) * (A + \<bar>a\<bar>)"
    unfolding us2_def
    using add_paid_r_size [OF model u0 tN0 tN1 A sizeP] by blast
  have paid3: "paid_of us3 = paid_of us2"
    by (simp add: us3_def paid_of_fold_share_r)
  have sizeP3: "\<forall>U\<in>set USERS. \<bar>paid_of us3 U\<bar> \<le> (1 + 2 * (N + 1) * u) * A'"
  proof
    fix U assume "U \<in> set USERS"
    with sizeP2 have "\<bar>paid_of us2 U\<bar> \<le> (1 + (2 * N * u + 2 * u)) * (A + \<bar>a\<bar>)" by blast
    then show "\<bar>paid_of us3 U\<bar> \<le> (1 + 2 * (N + 1) * u) * A'"
      by (simp add: paid3 A'_def algebra_simps)
  qed
  have pP: "\<bar>paid_of us (Payer r)\<bar> \<le> (1 + 2 * N * u) * A"
    using sizeP P by blast
  have e1: "\<bar>rnd (paid_of us (Payer r) + a) - (paid_of us (Payer r) + a)\<bar> \<le> 2 * u * A'"
    unfolding A'_def by (rule acc_step_error [OF model u0 tN0 tN1 pP A])
  have pt2: "paid_total us2
               = paid_total us + (rnd (paid_of us (Payer r) + a) - paid_of us (Payer r))"
    unfolding us2_def by (rule paid_total_add_paid_r [OF dom P])
  have pt3: "paid_total us3 = paid_total us2"
    by (simp add: paid_total_def paid3)
  \<comment> \<open>the share buckets\<close>
  have share2: "share_of us2 = share_of us"
    by (simp add: us2_def share_of_add_paid_r)
  have st2: "share_total us2 = share_total us"
    by (simp add: share_total_def share2)
  have S0: "0 \<le> (1 + u) * A" using u0 A by simp
  have sizeS2: "\<forall>U\<in>set USERS. \<bar>share_of us2 U\<bar> \<le> (1 + 2 * L * u) * ((1 + u) * A)"
    using sizeS by (simp add: share2)
  have ll': "2 * L * u + 2 * of_nat (length (inv_list c)) * u \<le> 1"
    using ll by (simp add: K_def)
  note fold = share_fold_r [OF model u0 dom2 names tL0 ll' S0 sizeS2, of s,
      folded us3_def K_def]
  have Ks: "K * \<bar>s\<bar> \<le> (1 + u) * \<bar>a\<bar>" and aKs: "\<bar>a - K * s\<bar> \<le> u * \<bar>a\<bar>"
    unfolding s_def by (rule share_size [OF model K0])+
  have W: "(1 + u) * A + K * \<bar>s\<bar> \<le> (1 + u) * A'"
    using Ks by (simp add: A'_def algebra_simps)
  have W0: "0 \<le> (1 + u) * A + K * \<bar>s\<bar>"
    using S0 K0 by simp
  have W2: "(1 + u) * A' \<le> 2 * A'"
    using u1 A' by (intro mult_right_mono) simp_all
  have sizeS3: "\<forall>U\<in>set USERS. \<bar>share_of us3 U\<bar> \<le> (1 + 2 * (L + K) * u) * ((1 + u) * A')"
  proof
    fix U assume "U \<in> set USERS"
    with fold have "\<bar>share_of us3 U\<bar>
        \<le> (1 + (2 * L * u + 2 * K * u)) * ((1 + u) * A + K * \<bar>s\<bar>)"
      by blast
    also have "\<dots> \<le> (1 + (2 * L * u + 2 * K * u)) * ((1 + u) * A')"
      using W tL0 tK0 by (intro mult_left_mono) simp_all
    also have "\<dots> = (1 + 2 * (L + K) * u) * ((1 + u) * A')"
      by (simp add: algebra_simps)
    finally show "\<bar>share_of us3 U\<bar> \<le> (1 + 2 * (L + K) * u) * ((1 + u) * A')" .
  qed
  from fold have "\<bar>share_total us3 - (share_total us2 + K * s)\<bar>
        \<le> K * (2 * u * ((1 + u) * A + K * \<bar>s\<bar>))"
    by blast
  also have "\<dots> \<le> K * (2 * u * (2 * A'))"
    using W W2 K0 u0 by (intro mult_left_mono) simp_all
  also have "\<dots> = 4 * K * u * A'" by simp
  finally have errS: "\<bar>share_total us3 - (share_total us2 + K * s)\<bar> \<le> 4 * K * u * A'" .
  \<comment> \<open>the difference of the totals\<close>
  have NL0: "0 \<le> 3 * N + 4 * L" using N0 L0 by simp
  have "u * A * (3 * N + 4 * L) \<le> u * A' * (3 * N + 4 * L)"
    using AA' u0 NL0 by (intro mult_right_mono mult_left_mono) simp_all
  with D have D': "\<bar>paid_total us - share_total us\<bar> \<le> u * A' * (3 * N + 4 * L)"
    by linarith
  have "u * \<bar>a\<bar> \<le> u * A'" using aA' u0 by (rule mult_left_mono)
  with aKs have aKs': "\<bar>a - K * s\<bar> \<le> u * A'" by linarith
  have "paid_total us3 - share_total us3
          = (paid_total us - share_total us)
            + (rnd (paid_of us (Payer r) + a) - (paid_of us (Payer r) + a))
            + (a - K * s)
            - (share_total us3 - (share_total us2 + K * s))"
    by (simp add: pt3 pt2 st2)
  then have "\<bar>paid_total us3 - share_total us3\<bar>
          \<le> \<bar>paid_total us - share_total us\<bar>
            + \<bar>rnd (paid_of us (Payer r) + a) - (paid_of us (Payer r) + a)\<bar>
            + \<bar>a - K * s\<bar>
            + \<bar>share_total us3 - (share_total us2 + K * s)\<bar>"
    by linarith
  also have "\<dots> \<le> u * A' * (3 * N + 4 * L) + 2 * u * A' + u * A' + 4 * K * u * A'"
    using D' e1 aKs' errS by linarith
  also have "\<dots> = u * A' * (3 * (N + 1) + 4 * (L + K))"
    by (simp add: algebra_simps)
  finally have D3: "\<bar>paid_total us3 - share_total us3\<bar>
                      \<le> u * A' * (3 * (N + 1) + 4 * (L + K))" .
  have cN: "(of_nat (n + 1) :: rat) = N + 1" by (simp add: N_def)
  have cL: "(of_nat (l + length (inv_list c)) :: rat) = L + K" by (simp add: L_def K_def)
  show ?thesis
    unfolding drift_inv_def res cN cL A'_def [symmetric]
    using dom3 A' sizeP3 sizeS3 D3 by blast
qed

lemma local_amount_None: "(local_amount rnd fs r = None) = (\<not> parses fs r)"
  by (auto simp: local_amount_def parses_def split: option.splits)

lemma count_le:
  fixes u :: rat
  assumes "2 * of_nat (m + j) * u \<le> 1" and "0 \<le> u"
  shows "2 * of_nat m * u \<le> 1"
proof -
  have "(of_nat m :: rat) \<le> of_nat (m + j)" by simp
  then have "2 * of_nat m * u \<le> 2 * of_nat (m + j) * u"
    using assms(2) by (intro mult_right_mono mult_left_mono) simp_all
  with assms(1) show ?thesis by linarith
qed

lemma fold_rows_drift:
  fixes rnd :: "rat \<Rightarrow> rat"
  assumes model: "\<And>z. \<bar>rnd z - z\<bar> \<le> u * \<bar>z\<bar>" and u0: "0 \<le> u" and u1: "u \<le> 1"
  shows "drift_inv u (user_stats acc) n l A \<Longrightarrow>
         list_all (\<lambda>r. \<not> parses fs r \<or> known_names r) df \<Longrightarrow>
         2 * of_nat (n + processed_rows fs df) * u \<le> 1 \<Longrightarrow>
         2 * of_nat (l + listed_names fs df) * u \<le> 1 \<Longrightarrow>
         drift_inv u (user_stats (fold (\<lambda>r a. row_step_r rnd fs a r) df acc))
           (n + processed_rows fs df) (l + listed_names fs df) (A + abs_total rnd fs df)"
proof (induction df arbitrary: acc n l A)
  case Nil
  then show ?case
    by (simp add: processed_rows_def listed_names_def abs_total_def)
next
  case (Cons r df)
  have rest: "list_all (\<lambda>r. \<not> parses fs r \<or> known_names r) df"
    using Cons.prems(2) by simp
  show ?case
  proof (cases "parses fs r")
    case False
    then have la: "local_amount rnd fs r = None" by (simp add: local_amount_None)
    have c: "processed_rows fs (r # df) = processed_rows fs df"
      "listed_names fs (r # df) = listed_names fs df"
      "abs_total rnd fs (r # df) = abs_total rnd fs df"
      using False la by (simp_all add: processed_rows_def listed_names_def abs_total_def)
    from Cons.IH [OF Cons.prems(1) rest] Cons.prems(3,4) show ?thesis
      by (simp add: c row_step_r_skips [OF la])
  next
    case True
    then obtain a where la: "local_amount rnd fs r = Some a"
      using local_amount_None [of rnd fs r] by (cases "local_amount rnd fs r") auto
    from True Cons.prems(2) have kn: "known_names r" by simp
    then obtain c where ic: "Involved r = Some c"
      by (auto simp: known_names_def split: option.splits)
    define k where "k = length (inv_list c)"
    have c: "processed_rows fs (r # df) = Suc (processed_rows fs df)"
      "listed_names fs (r # df) = k + listed_names fs df"
      "abs_total rnd fs (r # df) = \<bar>a\<bar> + abs_total rnd fs df"
      using True la ic by (simp_all add: processed_rows_def listed_names_def abs_total_def k_def)
    have n3: "2 * of_nat ((n + 1) + processed_rows fs df) * u \<le> 1"
      using Cons.prems(3) by (simp add: c)
    have l3: "2 * of_nat ((l + k) + listed_names fs df) * u \<le> 1"
      using Cons.prems(4) by (simp add: c add.assoc)
    have n1: "2 * of_nat (n + 1) * u \<le> 1" by (rule count_le [OF n3 u0])
    have l1: "2 * of_nat (l + length (inv_list c)) * u \<le> 1"
      unfolding k_def [symmetric] by (rule count_le [OF l3 u0])
    have step: "drift_inv u (user_stats (row_step_r rnd fs acc r)) (n + 1) (l + k) (A + \<bar>a\<bar>)"
      unfolding k_def by (rule row_step_r_drift [OF model u0 u1 Cons.prems(1) la kn ic n1 l1])
    from Cons.IH [OF step rest n3 l3] show ?thesis
      by (simp add: c add.assoc)
  qed
qed

lemma drift_inv_init: "drift_inv u (user_stats init_acc) 0 0 0"
  by (simp add: drift_inv_def dom_init paid_total_def share_total_def paid_of_def share_of_def
      init_acc_def USERS_def)

lemma balance_sum_r_eq:
  assumes "dom us = set USERS"
  shows "balance_sum_r rnd us
           = Some (sum_list (map (\<lambda>U. rnd (paid_of us U - share_of us U)) USERS))"
proof -
  have "map (balance_r rnd us) USERS
          = map (\<lambda>U. Some (rnd (paid_of us U - share_of us U))) USERS"
    using assms
    by (intro map_cong) (auto simp: balance_r_def paid_of_def share_of_def split: option.splits)
  then show ?thesis
    unfolding balance_sum_r_def by (simp only: those_map_Some option.map)
qed

lemma sum_list_close:
  fixes g h :: "'a \<Rightarrow> rat"
  assumes "\<forall>x\<in>set xs. \<bar>g x - h x\<bar> \<le> c"
  shows "\<bar>sum_list (map g xs) - sum_list (map h xs)\<bar> \<le> of_nat (length xs) * c"
  using assms
proof (induction xs)
  case Nil
  then show ?case by simp
next
  case (Cons x xs)
  then have "\<bar>g x - h x\<bar> \<le> c"
    and "\<bar>sum_list (map g xs) - sum_list (map h xs)\<bar> \<le> of_nat (length xs) * c"
    by simp_all
  then show ?case by (simp add: algebra_simps)
qed

lemma balances_close:
  fixes rnd :: "rat \<Rightarrow> rat"
  assumes model: "\<And>z. \<bar>rnd z - z\<bar> \<le> u * \<bar>z\<bar>" and u0: "0 \<le> u" and u1: "u \<le> 1"
    and inv: "drift_inv u us n l A"
    and n1: "2 * of_nat n * u \<le> 1" and l1: "2 * of_nat l * u \<le> 1"
  shows "\<bar>sum_list (map (\<lambda>U. rnd (paid_of us U - share_of us U)) USERS)\<bar>
           \<le> u * A * (3 * of_nat n + 4 * of_nat l + 12)"
proof -
  define N :: rat where "N = of_nat n"
  define L :: rat where "L = of_nat l"
  from inv have A: "0 \<le> A"
    and sizeP: "\<forall>U\<in>set USERS. \<bar>paid_of us U\<bar> \<le> (1 + 2 * N * u) * A"
    and sizeS: "\<forall>U\<in>set USERS. \<bar>share_of us U\<bar> \<le> (1 + 2 * L * u) * ((1 + u) * A)"
    and D: "\<bar>paid_total us - share_total us\<bar> \<le> u * A * (3 * N + 4 * L)"
    by (simp_all add: drift_inv_def N_def L_def)
  have n1': "2 * N * u \<le> 1" and l1': "2 * L * u \<le> 1"
    using n1 l1 by (simp_all add: N_def L_def)
  have uA: "(1 + u) * A \<le> 2 * A" using u1 A by (intro mult_right_mono) simp_all
  have uA0: "0 \<le> (1 + u) * A" using u0 A by simp
  have each: "\<forall>U\<in>set USERS.
      \<bar>rnd (paid_of us U - share_of us U) - (paid_of us U - share_of us U)\<bar> \<le> 6 * u * A"
  proof
    fix U assume U: "U \<in> set USERS"
    have "(1 + 2 * N * u) * A \<le> 2 * A"
      using n1' A by (intro mult_right_mono) simp_all
    with sizeP U have p: "\<bar>paid_of us U\<bar> \<le> 2 * A" by fastforce
    have "(1 + 2 * L * u) * ((1 + u) * A) \<le> 2 * ((1 + u) * A)"
      using l1' uA0 by (intro mult_right_mono) simp_all
    with sizeS U uA have f: "\<bar>share_of us U\<bar> \<le> 4 * A" by fastforce
    from p f have "\<bar>paid_of us U - share_of us U\<bar> \<le> 6 * A" by linarith
    then have "u * \<bar>paid_of us U - share_of us U\<bar> \<le> u * (6 * A)"
      using u0 by (rule mult_left_mono)
    with model [of "paid_of us U - share_of us U"]
    show "\<bar>rnd (paid_of us U - share_of us U) - (paid_of us U - share_of us U)\<bar> \<le> 6 * u * A"
      by (simp add: algebra_simps)
  qed
  have tot: "sum_list (map (\<lambda>U. paid_of us U - share_of us U) USERS)
               = paid_total us - share_total us"
    by (simp add: paid_total_def share_total_def sum_list_subtractf)
  have len: "(of_nat (length USERS) :: rat) = 2" by (simp add: USERS_def)
  from sum_list_close [OF each] have
    "\<bar>sum_list (map (\<lambda>U. rnd (paid_of us U - share_of us U)) USERS)
       - (paid_total us - share_total us)\<bar> \<le> 2 * (6 * u * A)"
    by (simp only: tot len)
  with D have "\<bar>sum_list (map (\<lambda>U. rnd (paid_of us U - share_of us U)) USERS)\<bar>
      \<le> u * A * (3 * N + 4 * L) + 2 * (6 * u * A)"
    by linarith
  also have "\<dots> = u * A * (3 * N + 4 * L + 12)" by (simp add: algebra_simps)
  finally show ?thesis by (simp only: N_def L_def)
qed

lemma drift_generic:
  fixes rnd :: "rat \<Rightarrow> rat"
  assumes model: "\<And>z. \<bar>rnd z - z\<bar> \<le> u * \<bar>z\<bar>" and u0: "0 \<le> u" and u1: "u \<le> 1 / 24"
    and names: "list_all (\<lambda>r. \<not> parses fs r \<or> known_names r) df"
    and n1: "2 * of_nat (processed_rows fs df) * u \<le> 1"
    and l1: "2 * of_nat (listed_names fs df) * u \<le> 1"
  shows "\<exists>s. balance_sum_r rnd (user_stats (settle_r rnd fs df)) = Some s \<and>
             \<bar>s\<bar> \<le> u * abs_total rnd fs df *
                     (3 * of_nat (processed_rows fs df) + 4 * of_nat (listed_names fs df) + 16) \<and>
             \<bar>rnd s\<bar> \<le> u * abs_total rnd fs df *
                     (3 * of_nat (processed_rows fs df) + 4 * of_nat (listed_names fs df) + 16)"
proof -
  define us where "us = user_stats (settle_r rnd fs df)"
  define N :: rat where "N = of_nat (processed_rows fs df)"
  define L :: rat where "L = of_nat (listed_names fs df)"
  define A where "A = abs_total rnd fs df"
  define s where "s = sum_list (map (\<lambda>U. rnd (paid_of us U - share_of us U)) USERS)"
  have u1': "u \<le> 1" using u1 by simp
  have inv: "drift_inv u us (processed_rows fs df) (listed_names fs df) A"
    using fold_rows_drift [OF model u0 u1' drift_inv_init names] n1 l1
    by (simp add: us_def settle_r_def A_def)
  then have dom: "dom us = set USERS" and A: "0 \<le> A" by (simp_all add: drift_inv_def)
  have sum: "balance_sum_r rnd us = Some s"
    unfolding s_def by (rule balance_sum_r_eq [OF dom])
  have N0: "0 \<le> N" and L0: "0 \<le> L" by (simp_all add: N_def L_def)
  have b: "\<bar>s\<bar> \<le> u * A * (3 * N + 4 * L + 12)"
    unfolding s_def N_def L_def by (rule balances_close [OF model u0 u1' inv n1 l1])
  have uA: "0 \<le> u * A" using u0 A by simp
  have "u * (3 * N + 4 * L + 12) = (3 / 2) * (2 * N * u) + 2 * (2 * L * u) + 12 * u"
    by (simp add: algebra_simps)
  also have "\<dots> \<le> (3 / 2) * 1 + 2 * 1 + 12 * (1 / 24)"
    using n1 l1 u1 by (intro add_mono mult_left_mono) (simp_all add: N_def L_def)
  finally have small: "u * (3 * N + 4 * L + 12) \<le> 4" by simp
  have "u * \<bar>s\<bar> \<le> u * (u * A * (3 * N + 4 * L + 12))"
    using b u0 by (rule mult_left_mono)
  also have "\<dots> = (u * A) * (u * (3 * N + 4 * L + 12))" by simp
  also have "\<dots> \<le> (u * A) * 4" using small uA by (rule mult_left_mono)
  finally have us4: "u * \<bar>s\<bar> \<le> 4 * (u * A)" by simp
  have "\<bar>rnd s\<bar> \<le> \<bar>s\<bar> + \<bar>rnd s - s\<bar>" by linarith
  also have "\<dots> \<le> u * A * (3 * N + 4 * L + 12) + 4 * (u * A)"
    using b model [of s] us4 by linarith
  also have "\<dots> = u * A * (3 * N + 4 * L + 16)" by (simp add: algebra_simps)
  finally have r: "\<bar>rnd s\<bar> \<le> u * A * (3 * N + 4 * L + 16)" .
  have "u * A * (3 * N + 4 * L + 12) \<le> u * A * (3 * N + 4 * L + 16)"
    using uA by (intro mult_left_mono) simp_all
  with b have b': "\<bar>s\<bar> \<le> u * A * (3 * N + 4 * L + 16)" by linarith
  from sum b' r show ?thesis
    unfolding us_def N_def L_def A_def by blast
qed

lemma drift_sum: "balance_sum_r binary64
     (user_stats (settle_r binary64 float_digits [one_yen_row, three_yen_row]))
   = Some (1 / 36028797018963968)"
  by (simp add: settle_r_eval one_yen_row_def three_yen_row_def)

lemma drift_bound_small: "drift_bound binary64 float_digits [one_yen_row, three_yen_row] \<le> 1 / 10 ^ 6"
  by (simp add: drift_bound_def abs_total_def local_amount_def processed_rows_def listed_names_def
      parses_def one_yen_row_def three_yen_row_def EXCHANGE_RATE_def inv_list_both inv_list_three
      binary64_values)

lemma drift_names:
  "list_all (\<lambda>r. \<not> parses float_digits r \<or> known_names r) [one_yen_row, three_yen_row]"
  by (simp add: parses_def known_names_def one_yen_row_def three_yen_row_def inv_list_both
      inv_list_three USERS_def)

lemma drift_size:
  "processed_rows float_digits [one_yen_row, three_yen_row]
     + listed_names float_digits [one_yen_row, three_yen_row] \<le> 2 ^ 52"
  by (simp add: processed_rows_def listed_names_def parses_def one_yen_row_def three_yen_row_def
      inv_list_both inv_list_three)

lemma drift_range: "list_all (in_float_range float_digits) [one_yen_row, three_yen_row]"
  by (simp add: in_float_range_def one_yen_row_def three_yen_row_def)

lemma huge_range: "in_float_range float_digits huge_row \<and> in_float_range float_digits one_twd_row"
  by (simp add: in_float_range_def huge_row_def one_twd_row_def)

text \<open>
  C1, as the specification states it, fails, in two ways. A row paid by somebody who is not
  a user puts shares on the users and nothing on any paid bucket: the balances sum to -100.
  And with only users named, 1 TWD added to a paid bucket that holds \<open>2^54\<close> is rounded away
  while its share is not: the balances sum to -1.
\<close>

theorem balance_drift_counterexample:
  "balance_sum_r binary64 (user_stats (settle_r binary64 float_digits [stranger_row]))
     = Some (- 100) \<and>
   known_names huge_row \<and> known_names one_twd_row \<and>
   in_float_range float_digits huge_row \<and> in_float_range float_digits one_twd_row \<and>
   balance_sum_r binary64 (user_stats (settle_r binary64 float_digits [huge_row, one_twd_row]))
     = Some (- 1)"
  by (simp add: huge_range)
     (simp add: settle_r_eval stranger_row_def huge_row_def one_twd_row_def known_names_def)

text \<open>
  C1, amended: when every row that parses names a user as its payer and only users in its
  Involved cell (and the ledger has at most \<open>2^52\<close> rows and names, with amounts in the
  range of \<open>in_float_range\<close>), the balances that the loop computes in binary64 have a sum,
  and that sum, exact or rounded, is within \<open>drift_bound\<close> of 0; so it is within the
  tolerance \<open>10^-6\<close> for every ledger whose \<open>drift_bound\<close> is at most \<open>10^-6\<close>. The bound
  follows from the relative error \<open>2^-53\<close> of each rounding; the range of the amounts is
  what makes \<open>binary64\<close> the rounding of the machine, and the proof does not use it.
\<close>

theorem balance_drift:
  assumes "list_all (\<lambda>r. \<not> parses fs r \<or> known_names r) df"
    and "processed_rows fs df + listed_names fs df \<le> 2 ^ 52"
    and "list_all (in_float_range fs) df"
  shows "\<exists>s. balance_sum_r binary64 (user_stats (settle_r binary64 fs df)) = Some s \<and>
             \<bar>s\<bar> \<le> drift_bound binary64 fs df \<and>
             \<bar>binary64 s\<bar> \<le> drift_bound binary64 fs df \<and>
             (drift_bound binary64 fs df \<le> 1 / 10 ^ 6 \<longrightarrow>
                \<bar>s\<bar> \<le> 1 / 10 ^ 6 \<and> \<bar>binary64 s\<bar> \<le> 1 / 10 ^ 6)"
proof -
  have le: "processed_rows fs df \<le> 2 ^ 52" "listed_names fs df \<le> 2 ^ 52"
    using assms(2) by simp_all
  have n1: "2 * of_nat (processed_rows fs df) * (1 / 2 ^ 53 :: rat) \<le> 1"
  proof -
    have "(of_nat (processed_rows fs df) :: rat) \<le> of_nat (2 ^ 52)"
      using le(1) by (simp only: of_nat_le_iff)
    then show ?thesis by simp
  qed
  have l1: "2 * of_nat (listed_names fs df) * (1 / 2 ^ 53 :: rat) \<le> 1"
  proof -
    have "(of_nat (listed_names fs df) :: rat) \<le> of_nat (2 ^ 52)"
      using le(2) by (simp only: of_nat_le_iff)
    then show ?thesis by simp
  qed
  from drift_generic [of binary64 "1 / 2 ^ 53", OF binary64_model _ _ assms(1) n1 l1]
  show ?thesis
    unfolding drift_bound_def by force
qed

theorem balance_drift_witness:
  "list_all (\<lambda>r. \<not> parses float_digits r \<or> known_names r) [one_yen_row, three_yen_row] \<and>
   processed_rows float_digits [one_yen_row, three_yen_row]
     + listed_names float_digits [one_yen_row, three_yen_row] \<le> 2 ^ 52 \<and>
   list_all (in_float_range float_digits) [one_yen_row, three_yen_row] \<and>
   drift_bound binary64 float_digits [one_yen_row, three_yen_row] \<le> 1 / 10 ^ 6 \<and>
   balance_sum_r binary64
     (user_stats (settle_r binary64 float_digits [one_yen_row, three_yen_row]))
     = Some (1 / 36028797018963968) \<and>
   \<bar>1 / 36028797018963968 :: rat\<bar> \<le> 1 / 10 ^ 6"
  using balance_drift [OF drift_names drift_size drift_range] drift_names drift_size drift_range
    drift_bound_small
  by (auto simp: drift_sum)

section \<open>The scenario of section 8\<close>

lemma floor_scenario: "\<lfloor>585 / 4 :: rat\<rfloor> = 146"
  by (rule floor_unique) simp_all

text \<open>
  C4: on the ledger of the scenario the first user has paid 207.5 and the second 500, each
  owes 353.75, the balances are -146.25 and 146.25, the total is 707.5, and the first user
  is told to pay the second; the amount owed is 146.25 and is displayed as 146.
\<close>

theorem scenario_values:
  "user_stats (settle fs [scenario_entry1, scenario_entry2]) ''Christen''
     = Some \<lparr>paid = 415 / 2, fair_share = 1415 / 4\<rparr> \<and>
   user_stats (settle fs [scenario_entry1, scenario_entry2]) ''Bill''
     = Some \<lparr>paid = 500, fair_share = 1415 / 4\<rparr> \<and>
   balance (user_stats (settle fs [scenario_entry1, scenario_entry2])) ''Christen''
     = Some (- (585 / 4)) \<and>
   balance (user_stats (settle fs [scenario_entry1, scenario_entry2])) ''Bill''
     = Some (585 / 4) \<and>
   total_twd (settle fs [scenario_entry1, scenario_entry2]) = 1415 / 2 \<and>
   diff_of (settle fs [scenario_entry1, scenario_entry2]) = Some (- (585 / 4)) \<and>
   settlement (settle fs [scenario_entry1, scenario_entry2])
     = Some (Pays ''Christen'' ''Bill'' 146)"
  by (simp add: settlement_def diff_of_def advise_def py_int_def balance_def
      scenario_entry1_def scenario_entry2_def settle_eval floor_scenario)

text \<open>The rounded loop gives the same values on the scenario: none of them is rounded.\<close>

lemma scenario_values_binary64:
  "user_stats (settle_r binary64 fs [scenario_entry1, scenario_entry2]) ''Christen''
     = Some \<lparr>paid = 415 / 2, fair_share = 1415 / 4\<rparr> \<and>
   user_stats (settle_r binary64 fs [scenario_entry1, scenario_entry2]) ''Bill''
     = Some \<lparr>paid = 500, fair_share = 1415 / 4\<rparr> \<and>
   balance_r binary64 (user_stats (settle_r binary64 fs [scenario_entry1, scenario_entry2])) ''Christen''
     = Some (- (585 / 4)) \<and>
   balance_r binary64 (user_stats (settle_r binary64 fs [scenario_entry1, scenario_entry2])) ''Bill''
     = Some (585 / 4) \<and>
   total_twd (settle_r binary64 fs [scenario_entry1, scenario_entry2]) = 1415 / 2"
  by (simp add: settle_r_eval scenario_entry1_def scenario_entry2_def)

section \<open>The balanced threshold\<close>

lemma diff_defined: "\<exists>d. diff_of (settle fs df) = Some d"
proof -
  have "USERS ! 0 \<in> dom (user_stats (settle fs df))"
    by (simp add: dom_settle) (simp add: USERS_def)
  then show ?thesis
    by (auto simp: diff_of_def balance_def split: option.splits)
qed

lemma advise_balanced: "(advise d = Balanced) = (\<bar>d\<bar> < 1)"
  by (simp add: advise_def)

lemma advise_unit:
  "\<bar>d\<bar> = 1 \<Longrightarrow>
   advise d = (if 0 < d then Pays (USERS ! 1) (USERS ! 0) 1 else Pays (USERS ! 0) (USERS ! 1) 1)"
  by (simp add: advise_def py_int_def)

text \<open>
  C2, as the specification states it, fails: 2 TWD paid by the first user and split between
  both make \<open>diff = 1\<close>, and the advice is that the second user pays 1, not that the ledger
  is balanced.
\<close>

theorem unit_diff_counterexample:
  "diff_of (settle float_digits [two_twd_by_first]) = Some 1 \<and>
   settlement (settle float_digits [two_twd_by_first]) = Some (Pays ''Bill'' ''Christen'' 1)"
  by (simp add: settlement_def diff_of_def advise_def py_int_def balance_def
      two_twd_by_first_def settle_eval)

text \<open>
  C2, amended: every ledger has a difference \<open>d\<close>; the ledger is reported balanced exactly
  when \<open>|d| < 1\<close>, and when \<open>|d| = 1\<close> a transfer of 1 is advised, to the first user when
  \<open>d = 1\<close> and to the second when \<open>d = -1\<close>.
\<close>

theorem balanced_threshold:
  "\<exists>d. diff_of (settle fs df) = Some d \<and>
       (settlement (settle fs df) = Some Balanced) = (\<bar>d\<bar> < 1) \<and>
       (\<bar>d\<bar> = 1 \<longrightarrow>
          settlement (settle fs df) =
            Some (if 0 < d then Pays (USERS ! 1) (USERS ! 0) 1
                  else Pays (USERS ! 0) (USERS ! 1) 1))"
proof -
  from diff_defined obtain d where d: "diff_of (settle fs df) = Some d" by blast
  then have "settlement (settle fs df) = Some (advise d)"
    by (simp add: settlement_def)
  with d show ?thesis
    by (auto simp: advise_balanced advise_unit)
qed

lemma diff_two_twd_by_second: "diff_of (settle float_digits [two_twd_by_second]) = Some (- 1)"
  by (simp add: diff_of_def balance_def two_twd_by_second_def settle_eval)

theorem balanced_threshold_witness:
  "diff_of (settle float_digits [two_twd_by_second]) = Some (- 1) \<and> \<bar>- 1 :: rat\<bar> = 1 \<and>
   settlement (settle float_digits [two_twd_by_second]) = Some (Pays ''Christen'' ''Bill'' 1)"
  using balanced_threshold [of float_digits "[two_twd_by_second]"]
  by (auto simp: diff_two_twd_by_second USERS_def)

section \<open>Rows that are skipped\<close>

lemma settle_filter_aux:
  "fold (\<lambda>r a. row_step fs a r) (filter (parses fs) df) a = fold (\<lambda>r a. row_step fs a r) df a"
  by (induction df arbitrary: a) (simp_all add: row_step_skips)

text \<open>
  C3, as the specification states it, fails: a row whose Involved cell is empty raises
  nothing and is not skipped; its 100 TWD go to the total and to the paid bucket of its
  payer, and to no share.
\<close>

theorem skipped_rows_counterexample:
  "spec_unparseable float_digits blank_involved_row \<and>
   total_twd (row_step float_digits init_acc blank_involved_row) = 100 \<and>
   total_twd init_acc = 0 \<and>
   user_stats (row_step float_digits init_acc blank_involved_row) ''Christen''
     = Some \<lparr>paid = 100, fair_share = 0\<rparr>"
  by (simp add: spec_unparseable_def blank_involved_row_def row_step_def init_acc_def USERS_def
      py_div_def add_paid_def add_share_def Let_def inv_list_blank)

text \<open>
  In a frame without Involved column the KeyError comes after the total and the paid bucket
  have been updated: the row is left half accumulated.
\<close>

lemma no_involved_column_half_accumulated:
  "total_twd (row_step float_digits init_acc no_involved_row) = 100 \<and>
   user_stats (row_step float_digits init_acc no_involved_row) ''Christen''
     = Some \<lparr>paid = 100, fair_share = 0\<rparr> \<and>
   user_stats (row_step float_digits init_acc no_involved_row) ''Bill''
     = Some \<lparr>paid = 0, fair_share = 0\<rparr>"
  by (simp add: no_involved_row_def row_step_def init_acc_def USERS_def add_paid_def Let_def)

text \<open>
  C3, amended: a row whose amount does not convert to a number (or whose frame has no
  Currency column) leaves the total and every bucket as they were, and the loop on a ledger
  gives what it gives on the rows that parse. The loop is a total function: nothing is
  raised to the caller.
\<close>

theorem skipped_rows:
  "(\<not> parses fs r \<longrightarrow> row_step fs a r = a) \<and>
   settle fs df = settle fs (filter (parses fs) df)"
  by (simp add: row_step_skips settle_def settle_filter_aux)

theorem skipped_rows_witness:
  "\<not> parses float_digits garbled_row \<and>
   row_step float_digits init_acc garbled_row = init_acc \<and>
   settle float_digits [scenario_entry1, garbled_row, scenario_entry2]
     = settle float_digits [scenario_entry1, scenario_entry2]"
proof -
  have g: "\<not> parses float_digits garbled_row"
    by (simp add: parses_def garbled_row_def float_digits_abc)
  have p1: "parses float_digits scenario_entry1" and p2: "parses float_digits scenario_entry2"
    by (simp_all add: parses_def scenario_entry1_def scenario_entry2_def)
  from skipped_rows [of float_digits garbled_row init_acc
      "[scenario_entry1, garbled_row, scenario_entry2]"] g p1 p2
  show ?thesis by simp
qed

section \<open>Appending an entry\<close>

lemma fill_row_id: "has_columns r \<Longrightarrow> fill_row r = r"
  by (cases r) (auto simp: has_columns_def fill_row_def fill_cell_def fill_amount_def)

lemma map_fill_row_id: "list_all has_columns rs \<Longrightarrow> map fill_row rs = rs"
  by (induction rs) (simp_all add: fill_row_id)

lemma submit_valid:
  "item f \<noteq> [] \<Longrightarrow> 0 < amount f \<Longrightarrow> involved f \<noteq> [] \<Longrightarrow> read_ok e \<Longrightarrow> update_ok e \<Longrightarrow>
   submit e f s =
     (Inr (item f),
      s\<lparr>remote := pd_concat (remote s) (new_row f), cache := None, last_sync := now e\<rparr>)"
  by (simp add: submit_def conn_read_fresh_def Let_def)

lemma has_columns_new_row: "has_columns (new_row f)"
  by (simp add: has_columns_def new_row_def)

lemma join_two: "join sep [x, y] = x @ sep @ y"
  by simp

text \<open>
  C5: a valid entry submitted while the store answers is appended to the sheet as it is at
  that moment, whatever the cache holds; the sheet is overwritten with the old rows (each
  completed to the six columns) followed by the row of the entry: its date, item, amount,
  currency and payer, and its involved names joined by a comma and a space. The cache is
  dropped, and a fresh read afterwards returns that sequence, the new row last. On a sheet
  that has the six columns the old rows are returned unchanged.
\<close>

theorem append_round_trip:
  assumes "item f \<noteq> []" and "0 < amount f" and "involved f \<noteq> []"
    and "read_ok e" and "update_ok e" and "read_ok e'"
  shows "fst (submit e f s) = Inr (item f) \<and>
         remote (snd (submit e f (s\<lparr>cache := c\<rparr>))) = remote (snd (submit e f s)) \<and>
         remote (snd (submit e f s)) =
           map fill_row (remote s) @
           [\<lparr>sheet_Date = Some (Text (date f)), sheet_Item = Some (Text (item f)),
             sheet_Amount = Some (Number (amount f)), sheet_Currency = Some (Text (currency f)),
             sheet_Payer = Some (Text (payer f)),
             sheet_Involved = Some (Text (join '', '' (involved f)))\<rparr>] \<and>
         cache (snd (submit e f s)) = None \<and>
         conn_read_fresh e' (snd (submit e f s)) = Inr (remote (snd (submit e f s))) \<and>
         (list_all has_columns (remote s) \<longrightarrow>
            conn_read_fresh e' (snd (submit e f s)) =
              Inr (remote s @
                   [\<lparr>sheet_Date = Some (Text (date f)), sheet_Item = Some (Text (item f)),
                     sheet_Amount = Some (Number (amount f)),
                     sheet_Currency = Some (Text (currency f)),
                     sheet_Payer = Some (Text (payer f)),
                     sheet_Involved = Some (Text (join '', '' (involved f)))\<rparr>]))"
  using assms
  by (simp add: submit_valid pd_concat_def conn_read_fresh_def map_fill_row_id new_row_def)

theorem append_round_trip_witness:
  "fst (submit (store_up 1010) ramen_form warm_state) = Inr ''ramen'' \<and>
   cache (snd (submit (store_up 1010) ramen_form warm_state)) = None \<and>
   conn_read_fresh (store_up 1011) (snd (submit (store_up 1010) ramen_form warm_state))
     = Inr [\<lparr>sheet_Date = Some (Text ''2026-02-02''), sheet_Item = Some (Text ''taxi''),
              sheet_Amount = Some (Number 500), sheet_Currency = Some (Text ''TWD''),
              sheet_Payer = Some (Text ''Bill''),
              sheet_Involved = Some (Text ''Christen, Bill'')\<rparr>,
            \<lparr>sheet_Date = Some (Text ''2026-02-01''), sheet_Item = Some (Text ''ramen''),
              sheet_Amount = Some (Number 1000), sheet_Currency = Some (Text ''JPY''),
              sheet_Payer = Some (Text ''Christen''),
              sheet_Involved = Some (Text ''Christen, Bill'')\<rparr>]"
proof -
  have h: "list_all has_columns (remote warm_state)"
    by (simp add: warm_state_def has_columns_new_row)
  have old: "remote warm_state =
      [\<lparr>sheet_Date = Some (Text ''2026-02-02''), sheet_Item = Some (Text ''taxi''),
        sheet_Amount = Some (Number 500), sheet_Currency = Some (Text ''TWD''),
        sheet_Payer = Some (Text ''Bill''),
        sheet_Involved = Some (Text ''Christen, Bill'')\<rparr>]"
    by (simp add: warm_state_def new_row_def taxi_form_def)
  have "item ramen_form \<noteq> []" and "0 < amount ramen_form" and "involved ramen_form \<noteq> []"
    and "read_ok (store_up 1010)" and "update_ok (store_up 1010)" and "read_ok (store_up 1011)"
    by (simp_all add: ramen_form_def store_up_def)
  from append_round_trip [OF this, of warm_state] h
  have "fst (submit (store_up 1010) ramen_form warm_state) = Inr (item ramen_form)"
    and "cache (snd (submit (store_up 1010) ramen_form warm_state)) = None"
    and "conn_read_fresh (store_up 1011) (snd (submit (store_up 1010) ramen_form warm_state)) =
           Inr (remote warm_state @
                [\<lparr>sheet_Date = Some (Text (date ramen_form)),
                  sheet_Item = Some (Text (item ramen_form)),
                  sheet_Amount = Some (Number (amount ramen_form)),
                  sheet_Currency = Some (Text (currency ramen_form)),
                  sheet_Payer = Some (Text (payer ramen_form)),
                  sheet_Involved = Some (Text (join '', '' (involved ramen_form)))\<rparr>])"
    by blast+
  then show ?thesis
    by (simp add: old ramen_form_def)
qed

section \<open>Validation of the form\<close>

text \<open>
  C6, as the specification states it, fails: a form without item and a form with amount 0
  violate different fields and get the same report.
\<close>

theorem submit_validation_report_counterexample:
  "spec_violated_fields no_item_form = [ItemField] \<and>
   spec_violated_fields no_amount_form = [AmountField] \<and>
   fst (submit (store_up 1010) no_item_form warm_state)
     = fst (submit (store_up 1010) no_amount_form warm_state)"
  by (simp add: spec_violated_fields_def no_item_form_def no_amount_form_def ramen_form_def
      submit_def)

text \<open>
  C6, amended: the form is refused, with the one report \<open>Incomplete\<close> that names the three
  fields together, exactly when the item is empty, the amount is at most 0 or nobody is
  involved; then nothing is written and the state is unchanged. A form with none of the
  three faults is written when the store answers the read and the update.
\<close>

theorem submit_validation:
  "(fst (submit e f s) = Inl Incomplete) = (item f = [] \<or> amount f \<le> 0 \<or> involved f = []) \<and>
   (fst (submit e f s) = Inl Incomplete \<longrightarrow> snd (submit e f s) = s) \<and>
   (item f \<noteq> [] \<and> 0 < amount f \<and> involved f \<noteq> [] \<and> read_ok e \<and> update_ok e \<longrightarrow>
      fst (submit e f s) = Inr (item f) \<and>
      remote (snd (submit e f s)) = pd_concat (remote s) (new_row f))"
  by (auto simp: submit_def conn_read_fresh_def Let_def)

theorem submit_validation_witness:
  "fst (submit (store_up 1010) no_amount_form warm_state) = Inl Incomplete \<and>
   snd (submit (store_up 1010) no_amount_form warm_state) = warm_state \<and>
   fst (submit (store_up 1010) taxi_form warm_state) = Inr ''taxi'' \<and>
   remote (snd (submit (store_up 1010) taxi_form warm_state))
     = [new_row taxi_form, new_row taxi_form]"
proof -
  have bad: "amount no_amount_form \<le> 0"
    by (simp add: no_amount_form_def)
  have good: "item taxi_form \<noteq> [] \<and> 0 < amount taxi_form \<and> involved taxi_form \<noteq> [] \<and>
      read_ok (store_up 1010) \<and> update_ok (store_up 1010)"
    by (simp add: taxi_form_def store_up_def)
  have old: "pd_concat (remote warm_state) (new_row taxi_form) = [new_row taxi_form, new_row taxi_form]"
    by (simp add: pd_concat_def warm_state_def fill_row_id has_columns_new_row)
  from submit_validation [of "store_up 1010" no_amount_form warm_state]
    submit_validation [of "store_up 1010" taxi_form warm_state] bad good old
  show ?thesis by (simp add: taxi_form_def)
qed

section \<open>A failed update\<close>

text \<open>
  C9: when the update fails the handler leaves the state as it was, the cache included, so
  the cached read gives what it gave before; the cache changes only in a run that reports
  success.
\<close>

theorem failed_update_keeps_cache:
  "(\<not> update_ok e \<longrightarrow>
      cache (snd (submit e f s)) = cache s \<and> remote (snd (submit e f s)) = remote s \<and>
      get_data_cached e' (snd (submit e f s)) = get_data_cached e' s) \<and>
   (cache (snd (submit e f s)) \<noteq> cache s \<longrightarrow> fst (submit e f s) = Inr (item f)) \<and>
   (item f \<noteq> [] \<and> 0 < amount f \<and> involved f \<noteq> [] \<and> read_ok e \<and> \<not> update_ok e \<longrightarrow>
      fst (submit e f s) = Inl UpdateFailed)"
  by (auto simp: submit_def conn_read_fresh_def Let_def split: if_splits)

theorem failed_update_keeps_cache_witness:
  "\<not> update_ok (update_down 1010) \<and>
   fst (submit (update_down 1010) ramen_form warm_state) = Inl UpdateFailed \<and>
   cache (snd (submit (update_down 1010) ramen_form warm_state)) = Some (1000, [scenario_entry2]) \<and>
   fst (get_data_cached (store_up 1011) (snd (submit (update_down 1010) ramen_form warm_state)))
     = Inr [scenario_entry2]"
proof -
  have h: "\<not> update_ok (update_down 1010)"
    and v: "item ramen_form \<noteq> [] \<and> 0 < amount ramen_form \<and> involved ramen_form \<noteq> [] \<and>
            read_ok (update_down 1010) \<and> \<not> update_ok (update_down 1010)"
    by (simp_all add: update_down_def ramen_form_def)
  have g: "fst (get_data_cached (store_up 1011) warm_state) = Inr [scenario_entry2]"
    by (simp add: get_data_cached_def warm_state_def store_up_def)
  from failed_update_keeps_cache [of "update_down 1010" ramen_form warm_state "store_up 1011"] h v g
  show ?thesis by (simp add: warm_state_def)
qed

section \<open>The refresh cooldown\<close>

lemma py_int_25: "py_int 25 = 25"
  by (simp add: py_int_def)

text \<open>
  C7: a press of the refresh button is refused, with the truncated remaining seconds, exactly
  when less than 30 seconds have passed since \<^verbatim>\<open>last_sync_time\<close>; an accepted press sets
  \<^verbatim>\<open>last_sync_time\<close> to its time, and a press 5 seconds after an accepted one is refused
  with a wait of 25.
\<close>

theorem refresh_cooldown:
  "fst (refresh t s) =
     (if t - last_sync_time s < 30 then Wait (py_int (30 - (t - last_sync_time s))) else Synced) \<and>
   (fst (refresh t s) \<noteq> Synced) = (t - last_sync_time s < 30) \<and>
   (fst (refresh t s) = Synced \<longrightarrow>
      last_sync_time (snd (refresh t s)) = t \<and>
      fst (refresh (t + 5) (snd (refresh t s))) = Wait 25)"
  by (simp add: refresh_def Let_def py_int_25)

theorem refresh_cooldown_witness:
  "fst (refresh 1000 (init_state [] 990)) = Synced \<and>
   last_sync_time (snd (refresh 1000 (init_state [] 990))) = 1000 \<and>
   fst (refresh (1000 + 5) (snd (refresh 1000 (init_state [] 990)))) = Wait 25"
proof -
  have "fst (refresh 1000 (init_state [] 990)) = Synced"
    by (simp add: refresh_def init_state_def)
  with refresh_cooldown [of 1000 "init_state [] 990"] show ?thesis by simp
qed

section \<open>A refused refresh\<close>

lemma refresh_refused: "t - last_sync_time s < 30 \<Longrightarrow> refresh t s = (Wait (py_int (30 - (t - last_sync_time s))), s)"
  by (simp add: refresh_def)

lemma press_all_refused:
  "list_all (\<lambda>t. t - last_sync_time s < 30) ts \<Longrightarrow> press_all ts s = s"
  unfolding press_all_def
  by (induction ts) (simp_all add: refresh_refused)

text \<open>
  C10: a refused press leaves the whole state, and so \<^verbatim>\<open>last_sync_time\<close>, as it was; any
  number of presses inside the cooldown leave it as it was; and \<^verbatim>\<open>last_sync_time\<close> differs
  after a press only when the press was accepted.
\<close>

theorem refused_refresh_frame:
  "(fst (refresh t s) \<noteq> Synced \<longrightarrow> snd (refresh t s) = s) \<and>
   (list_all (\<lambda>t. t - last_sync_time s < 30) ts \<longrightarrow> press_all ts s = s) \<and>
   (last_sync_time (snd (refresh t s)) \<noteq> last_sync_time s \<longrightarrow> fst (refresh t s) = Synced)"
  by (simp add: press_all_refused) (simp add: refresh_def Let_def)

theorem refused_refresh_frame_witness:
  "fst (refresh 1005 (snd (refresh 1000 warm_state))) = Wait 25 \<and>
   snd (refresh 1005 (snd (refresh 1000 warm_state))) = snd (refresh 1000 warm_state) \<and>
   press_all [1005, 1010, 1029] (snd (refresh 1000 warm_state)) = snd (refresh 1000 warm_state) \<and>
   last_sync_time (snd (refresh 1000 warm_state)) \<noteq> last_sync_time warm_state \<and>
   fst (refresh 1000 warm_state) = Synced"
proof -
  have a: "snd (refresh 1000 warm_state)
             = warm_state\<lparr>cache := None, last_sync_time := 1000, last_sync_display := Some 1000\<rparr>"
    by (simp add: refresh_def warm_state_def)
  have w: "fst (refresh 1005 (snd (refresh 1000 warm_state))) = Wait 25"
    unfolding a by (simp add: refresh_def py_int_25)
  have l: "list_all (\<lambda>t. t - last_sync_time (snd (refresh 1000 warm_state)) < 30) [1005, 1010, 1029]"
    unfolding a by simp
  have d: "last_sync_time (snd (refresh 1000 warm_state)) \<noteq> last_sync_time warm_state"
    unfolding a by (simp add: warm_state_def)
  from refused_refresh_frame [of 1005 "snd (refresh 1000 warm_state)" "[1005, 1010, 1029]"]
    refused_refresh_frame [of 1000 warm_state "[]"] w l d
  show ?thesis by simp
qed

end
